theory Spec2Isabelle
  imports Complex_Main "HOL-Library.Multiset"
begin

section \<open>Python values, errors and string primitives\<close>

text \<open>
  Exceptions of the Python source are values of \<open>pyerr\<close>; a function that can raise
  returns \<open>pyerr + 'a\<close> with \<open>Inl\<close> for the raised exception.  \<open>FileNotFoundError\<close> and
  \<open>PermissionError\<close> are subclasses of \<open>OSError\<close>, of which \<open>IOError\<close> is an alias;
  \<open>JSONDecodeError\<close> is a subclass of \<open>ValueError\<close>.  \<open>DimensionMismatch\<close> stands for the
  error with which the underlying similarity index rejects vectors of another dimension.
\<close>

datatype pyerr =
    SyntaxError | ValueError | TypeError | KeyError | ZeroDivisionError
  | OSError | FileNotFoundError | PermissionError
  | JSONDecodeError | RuntimeError | DimensionMismatch | AssertionError | AttributeError
  | RecursionError

text \<open>The values stored in metadata dictionaries.\<close>

datatype pyval = VStr string | VInt int | VList "string list" | VPair int int

type_synonym pydict = "string \<rightharpoonup> pyval"

text \<open>
  A Python \<open>str\<close> is modelled as a \<open>string\<close>, one \<open>char\<close> per code point (code points
  below 256).  \<open>py_isspace\<close> is \<open>str.isspace\<close> on one such character, which is also the class
  \<open>\s\<close> of a \<open>str\<close> pattern.
\<close>

definition py_isspace :: "char \<Rightarrow> bool" where
  "py_isspace c =
     (let n = (of_char c :: nat)
      in (9 \<le> n \<and> n \<le> 13) \<or> (28 \<le> n \<and> n \<le> 32) \<or> n = 133 \<or> n = 160)"

definition lstrip :: "string \<Rightarrow> string" where
  "lstrip s = dropWhile py_isspace s"

definition startswith :: "string \<Rightarrow> string \<Rightarrow> bool" where
  "startswith s p = (take (length p) s = p)"

text \<open>\<open>sep.join(xs)\<close>.\<close>

fun join :: "string \<Rightarrow> string list \<Rightarrow> string" where
  "join sep [] = []"
| "join sep [x] = x"
| "join sep (x # y # ys) = x @ sep @ join sep (y # ys)"

text \<open>\<open>s.split(d)\<close> for a separator of one character: never empty, \<open>[[]]\<close> on the empty string.\<close>

fun split_char :: "char \<Rightarrow> string \<Rightarrow> string list" where
  "split_char d [] = [[]]"
| "split_char d (c # cs) =
     (if c = d then [] # split_char d cs
      else (case split_char d cs of w # ws \<Rightarrow> (c # w) # ws | [] \<Rightarrow> [[c]]))"

text \<open>\<open>s.split(a + b)\<close> for a separator of two characters, matched left to right.\<close>

fun split_pair :: "char \<Rightarrow> char \<Rightarrow> string \<Rightarrow> string list" where
  "split_pair a b [] = [[]]"
| "split_pair a b [c] = [[c]]"
| "split_pair a b (c # e # cs) =
     (if c = a \<and> e = b then [] # split_pair a b cs
      else (case split_pair a b (e # cs) of w # ws \<Rightarrow> (c # w) # ws | [] \<Rightarrow> [[c]]))"

abbreviation NL :: char where "NL \<equiv> CHR 0x0A"

text \<open>
  \<open>xs[i:j]\<close>: a negative bound counts from the end, and both bounds are clamped to the
  list, so a slice never raises.
\<close>

definition slice_index :: "nat \<Rightarrow> int \<Rightarrow> nat" where
  "slice_index n i = (if i < 0 then nat (max 0 (int n + i)) else min n (nat i))"

definition py_slice :: "'a list \<Rightarrow> int \<Rightarrow> int \<Rightarrow> 'a list" where
  "py_slice xs i j =
     (let lo = slice_index (length xs) i; hi = slice_index (length xs) j
      in take (hi - lo) (drop lo xs))"

text \<open>\<open>range(start, stop, step)\<close>: a zero step raises \<open>ValueError\<close>.\<close>

definition range_len :: "int \<Rightarrow> int \<Rightarrow> int \<Rightarrow> nat" where
  "range_len start stop step =
     (if 0 < step \<and> start < stop then nat ((stop - start - 1) div step + 1)
      else if step < 0 \<and> stop < start then nat ((start - stop - 1) div (- step) + 1)
      else 0)"

definition py_range :: "int \<Rightarrow> int \<Rightarrow> int \<Rightarrow> pyerr + int list" where
  "py_range start stop step =
     (if step = 0 then Inl ValueError
      else Inr (map (\<lambda>j. start + int j * step) [0..<range_len start stop step]))"


section \<open>Chunker (processors/chunker.py)\<close>

text \<open>\<open>Config.CHUNK_SIZE\<close> and \<open>Config.CHUNK_OVERLAP\<close>.\<close>

definition CHUNK_SIZE :: int where "CHUNK_SIZE = 1000"
definition CHUNK_OVERLAP :: int where "CHUNK_OVERLAP = 200"

record chunker =
  chunk_size :: int
  chunk_overlap :: int

text \<open>\<open>Chunker.__init__\<close>: \<open>x or default\<close> takes the default for \<open>None\<close> and for \<open>0\<close>.\<close>

definition Chunker_init :: "int option \<Rightarrow> int option \<Rightarrow> chunker" where
  "Chunker_init cs ov =
     \<lparr> chunk_size = (case cs of None \<Rightarrow> CHUNK_SIZE | Some n \<Rightarrow> if n = 0 then CHUNK_SIZE else n),
       chunk_overlap = (case ov of None \<Rightarrow> CHUNK_OVERLAP | Some n \<Rightarrow> if n = 0 then CHUNK_OVERLAP else n) \<rparr>"

text \<open>\<open>_simple_chunk_by_size\<close>: slices \<open>content[i:i + chunk_size]\<close> for \<open>i\<close> in
  \<open>range(0, len(content), chunk_size)\<close>.\<close>

definition simple_chunk_by_size :: "int \<Rightarrow> string \<Rightarrow> pyerr + string list" where
  "simple_chunk_by_size cs content =
     (if int (length content) \<le> cs then Inr [content]
      else (case py_range 0 (int (length content)) cs of
              Inl e \<Rightarrow> Inl e
            | Inr starts \<Rightarrow> Inr (map (\<lambda>i. py_slice content i (i + cs)) starts)))"


text \<open>
  The accumulator of the splitting loops: the finished \<open>chunks\<close>, the pieces of the chunk
  being built and their accumulated size.  \<open>flush sep\<close> is
  \<open>chunks.append(sep.join(current_chunk)); current_chunk = []; current_size = 0\<close>.
\<close>

record acc =
  chunks :: "string list"
  current_chunk :: "string list"
  current_size :: int

record cstate = acc +
  indent_level :: "nat option"

definition flush :: "string \<Rightarrow> 'a acc_scheme \<Rightarrow> 'a acc_scheme" where
  "flush sep st =
     st\<lparr> chunks := chunks st @ [join sep (current_chunk st)], current_chunk := [], current_size := 0 \<rparr>"

definition push :: "string \<Rightarrow> int \<Rightarrow> 'a acc_scheme \<Rightarrow> 'a acc_scheme" where
  "push piece n st =
     st\<lparr> current_chunk := current_chunk st @ [piece], current_size := current_size st + n \<rparr>"

text \<open>
  \<open>line.startswith(' ' * (indent_level + 4) if indent_level is not None else False)\<close>:
  with \<open>indent_level\<close> still \<open>None\<close> the argument is \<open>False\<close> and \<open>startswith\<close> raises
  \<open>TypeError\<close>.
\<close>

definition deeper :: "string \<Rightarrow> nat option \<Rightarrow> pyerr + bool" where
  "deeper line lvl =
     (case lvl of
        None \<Rightarrow> Inl TypeError
      | Some n \<Rightarrow> Inr (startswith line (replicate (n + 4) CHR '' '')))"

text \<open>
  The boundary test of \<open>_chunk_code\<close>, with the short-circuit evaluation of \<open>or\<close> and
  \<open>and\<close>: \<open>line.startswith('@') or (stripped.startswith('def ') and not deeper) or
  (stripped.startswith('class ') and not deeper)\<close>.
\<close>

definition is_boundary :: "string \<Rightarrow> string \<Rightarrow> nat option \<Rightarrow> pyerr + bool" where
  "is_boundary line stripped lvl =
     (if startswith line ''@'' then Inr True
      else (case (if startswith stripped ''def ''
                  then (case deeper line lvl of Inl e \<Rightarrow> Inl e | Inr b \<Rightarrow> Inr (\<not> b))
                  else Inr False) of
              Inl e \<Rightarrow> Inl e
            | Inr True \<Rightarrow> Inr True
            | Inr False \<Rightarrow>
                (if startswith stripped ''class ''
                 then (case deeper line lvl of Inl e \<Rightarrow> Inl e | Inr b \<Rightarrow> Inr (\<not> b))
                 else Inr False)))"

text \<open>
  One iteration of the line loop of \<open>_chunk_code\<close>.  The test
  \<open>current_size + line_size > self.chunk_size * 1.5\<close> compares an integer with a float that
  is exactly three halves of \<open>chunk_size\<close>; it is written over the integers.
\<close>

definition code_step :: "int \<Rightarrow> cstate \<Rightarrow> string \<Rightarrow> pyerr + cstate" where
  "code_step cs st line =
     (let line_size = int (length (line @ [NL]));
          stripped = lstrip line;
          st1 = (if stripped \<noteq> [] \<and> indent_level st = None
                 then st\<lparr> indent_level := Some (length line - length stripped) \<rparr> else st)
      in case is_boundary line stripped (indent_level st1) of
           Inl e \<Rightarrow> Inl e
         | Inr b \<Rightarrow>
             (let st2 = (if b \<and> current_chunk st1 \<noteq> [] then flush [NL] st1 else st1);
                  st3 = (if 3 * cs < 2 * (current_size st2 + line_size) \<and> current_chunk st2 \<noteq> []
                         then flush [NL] st2 else st2)
              in Inr (push line line_size st3)))"

fun code_loop :: "int \<Rightarrow> cstate \<Rightarrow> string list \<Rightarrow> pyerr + cstate" where
  "code_loop cs st [] = Inr st"
| "code_loop cs st (l # ls) =
     (case code_step cs st l of Inl e \<Rightarrow> Inl e | Inr st' \<Rightarrow> code_loop cs st' ls)"

definition code_init :: cstate where
  "code_init = \<lparr> chunks = [], current_chunk = [], current_size = 0, indent_level = None \<rparr>"

text \<open>\<open>metadata.get(key, default)\<close>.\<close>

definition dict_get :: "pydict \<Rightarrow> string \<Rightarrow> pyval \<Rightarrow> pyval" where
  "dict_get m k dflt = (case m k of None \<Rightarrow> dflt | Some v \<Rightarrow> v)"

text \<open>\<open>_chunk_code\<close>.\<close>

definition chunk_code :: "int \<Rightarrow> string \<Rightarrow> pydict \<Rightarrow> pyerr + string list" where
  "chunk_code cs content metadata =
     (if int (length content) \<le> cs then Inr [content]
      else if dict_get metadata ''type'' (VStr []) = VStr ''function''
              \<and> int (length content) \<le> cs * 2 then Inr [content]
      else (case code_loop cs code_init (split_char NL content) of
              Inl e \<Rightarrow> Inl e
            | Inr st \<Rightarrow>
                (let st' = (if current_chunk st \<noteq> []
                            then st\<lparr> chunks := chunks st @ [join [NL] (current_chunk st)] \<rparr> else st)
                 in if chunks st' = [] then simple_chunk_by_size cs content
                    else Inr (chunks st'))))"

text \<open>
  \<open>re.split(r'(?<=[.!?])\s+', para)\<close>: a separator is a maximal run of whitespace that
  directly follows one of \<open>.\<close>, \<open>!\<close>, \<open>?\<close>.  The first argument tells whether the scan
  is inside such a run, the second is the character before the current position.
\<close>

definition sentence_end :: "char option \<Rightarrow> bool" where
  "sentence_end prev = (prev = Some CHR ''.'' \<or> prev = Some CHR ''!'' \<or> prev = Some CHR ''?'')"

fun re_split_sentences :: "bool \<Rightarrow> char option \<Rightarrow> string \<Rightarrow> string list" where
  "re_split_sentences inside prev [] = [[]]"
| "re_split_sentences True prev (c # cs) =
     (if py_isspace c then re_split_sentences True prev cs
      else (case re_split_sentences False (Some c) cs of
              w # ws \<Rightarrow> (c # w) # ws | [] \<Rightarrow> [[c]]))"
| "re_split_sentences False prev (c # cs) =
     (if py_isspace c \<and> sentence_end prev then [] # re_split_sentences True (Some c) cs
      else (case re_split_sentences False (Some c) cs of
              w # ws \<Rightarrow> (c # w) # ws | [] \<Rightarrow> [[c]]))"

text \<open>The sentence loop and the paragraph loop of \<open>_chunk_text\<close>.\<close>

definition sentence_step :: "int \<Rightarrow> acc \<Rightarrow> string \<Rightarrow> pyerr + acc" where
  "sentence_step cs st sentence =
     (let sentence_size = int (length sentence) + 1;
          st1 = (if cs < current_size st + sentence_size \<and> current_chunk st \<noteq> []
                 then flush [NL, NL] st else st)
      in if cs < sentence_size
         then (let st2 = (if current_chunk st1 \<noteq> []
                          then st1\<lparr> chunks := chunks st1 @ [join [NL, NL] (current_chunk st1)] \<rparr>
                          else st1)
               in case simple_chunk_by_size cs sentence of
                    Inl e \<Rightarrow> Inl e
                  | Inr pieces \<Rightarrow>
                      Inr (st2\<lparr> chunks := chunks st2 @ pieces, current_chunk := [], current_size := 0 \<rparr>))
         else Inr (push sentence sentence_size st1))"

fun sentence_loop :: "int \<Rightarrow> acc \<Rightarrow> string list \<Rightarrow> pyerr + acc" where
  "sentence_loop cs st [] = Inr st"
| "sentence_loop cs st (x # xs) =
     (case sentence_step cs st x of Inl e \<Rightarrow> Inl e | Inr st' \<Rightarrow> sentence_loop cs st' xs)"

definition para_step :: "int \<Rightarrow> acc \<Rightarrow> string \<Rightarrow> pyerr + acc" where
  "para_step cs st para =
     (let para_size = int (length para) + 2;
          st1 = (if cs < current_size st + para_size \<and> current_chunk st \<noteq> []
                 then flush [NL, NL] st else st)
      in if cs < para_size
         then sentence_loop cs st1 (re_split_sentences False None para)
         else Inr (push para para_size st1))"

fun para_loop :: "int \<Rightarrow> acc \<Rightarrow> string list \<Rightarrow> pyerr + acc" where
  "para_loop cs st [] = Inr st"
| "para_loop cs st (x # xs) =
     (case para_step cs st x of Inl e \<Rightarrow> Inl e | Inr st' \<Rightarrow> para_loop cs st' xs)"

text \<open>\<open>_chunk_text\<close>.\<close>

definition chunk_text :: "int \<Rightarrow> string \<Rightarrow> pyerr + string list" where
  "chunk_text cs text =
     (if int (length text) \<le> cs then Inr [text]
      else (case para_loop cs \<lparr> chunks = [], current_chunk = [], current_size = 0 \<rparr>
                   (split_pair NL NL text) of
              Inl e \<Rightarrow> Inl e
            | Inr st \<Rightarrow>
                Inr (if current_chunk st \<noteq> []
                     then chunks st @ [join [NL, NL] (current_chunk st)] else chunks st)))"

text \<open>
  A document is the dictionary \<open>{"content": ..., "metadata": ...}\<close>.  \<open>chunk_documents\<close>
  reads \<open>metadata["type"]\<close>, which raises \<open>KeyError\<close> when the key is absent, and stamps
  every chunk with \<open>chunk_index\<close> and \<open>total_chunks\<close> on a copy of the metadata.
\<close>

record document =
  content :: string
  metadata :: pydict

definition stamp :: "pydict \<Rightarrow> nat \<Rightarrow> nat \<Rightarrow> pydict" where
  "stamp m i n = m(''chunk_index'' \<mapsto> VInt (int i), ''total_chunks'' \<mapsto> VInt (int n))"

definition chunk_document :: "int \<Rightarrow> document \<Rightarrow> pyerr + document list" where
  "chunk_document cs doc =
     (case metadata doc ''type'' of
        None \<Rightarrow> Inl KeyError
      | Some t \<Rightarrow>
          (case (if t = VStr ''class'' \<or> t = VStr ''function''
                 then chunk_code cs (content doc) (metadata doc)
                 else chunk_text cs (content doc)) of
             Inl e \<Rightarrow> Inl e
           | Inr pieces \<Rightarrow>
               Inr (map (\<lambda>(i, chunk). \<lparr> content = chunk,
                                         metadata = stamp (metadata doc) i (length pieces) \<rparr>)
                        (enumerate 0 pieces))))"

fun chunk_documents :: "int \<Rightarrow> document list \<Rightarrow> pyerr + document list" where
  "chunk_documents cs [] = Inr []"
| "chunk_documents cs (doc # docs) =
     (case chunk_document cs doc of
        Inl e \<Rightarrow> Inl e
      | Inr xs \<Rightarrow>
          (case chunk_documents cs docs of Inl e \<Rightarrow> Inl e | Inr ys \<Rightarrow> Inr (xs @ ys)))"


text \<open>
  The invariant of the line loop: the finished chunks are the newline-joins of non-empty groups
  of lines, and these groups followed by the lines of the open chunk are the lines seen so far.
\<close>

definition line_groups :: "cstate \<Rightarrow> string list \<Rightarrow> bool" where
  "line_groups st seen =
     (\<exists>gs. chunks st = map (join [NL]) gs \<and> [] \<notin> set gs \<and> concat gs @ current_chunk st = seen)"


section \<open>Vector store (vector_db/faiss_store.py)\<close>

text \<open>
  Vectors have real components: the 32-bit floats of the index are idealised as reals, so a
  distance is the exact squared Euclidean distance.  An embeddings matrix is a two-dimensional
  array with \<open>arr_cols\<close> columns (\<open>shape[1]\<close>) whose rows are \<open>arr_rows\<close>.
\<close>

type_synonym vec = "real list"

record ndarray =
  arr_cols :: nat
  arr_rows :: "vec list"

text \<open>
  Modelled from the spec: the similarity index itself (\<open>faiss.IndexFlatL2\<close>) belongs to the
  FAISS library, whose code is not in the repository.  Its model keeps the fixed dimension and
  the stored vectors in slot order.  Adding vectors of another dimension fails with
  \<open>DimensionMismatch\<close> and changes nothing; a search returns, for one query vector, exactly
  \<open>k\<close> pairs of distance and slot: the nearest stored vectors by ascending squared Euclidean
  distance (the lower slot first among equal distances), then, if fewer than \<open>k\<close> vectors are
  stored, pairs with slot \<open>-1\<close>.  A query of another dimension and a non-positive \<open>k\<close> are
  rejected.
\<close>

record faiss_index =
  index_d :: nat
  index_xb :: "vec list"

definition ntotal :: "faiss_index \<Rightarrow> nat" where
  "ntotal idx = length (index_xb idx)"

definition IndexFlatL2 :: "nat \<Rightarrow> faiss_index" where
  "IndexFlatL2 n = \<lparr> index_d = n, index_xb = [] \<rparr>"

text \<open>Modelled from the spec: \<open>index.add\<close> of the FAISS library, which is not part of the
  repository: vectors of another dimension than the fixed one are rejected.\<close>

definition index_add :: "faiss_index \<Rightarrow> ndarray \<Rightarrow> pyerr + faiss_index" where
  "index_add idx emb =
     (if arr_cols emb \<noteq> index_d idx then Inl DimensionMismatch
      else Inr (idx\<lparr> index_xb := index_xb idx @ arr_rows emb \<rparr>))"

definition l2sq :: "vec \<Rightarrow> vec \<Rightarrow> real" where
  "l2sq q x = sum_list (map (\<lambda>(a, b). (a - b) * (a - b)) (zip q x))"

definition FLT_MAX :: real where
  "FLT_MAX = 340282346638528859811704183484516925440"

text \<open>Modelled from the spec: \<open>index.search\<close> of the FAISS library, which is not part of the
  repository: row 0 of the distances and of the slots it returns, paired by position.\<close>

definition index_search :: "faiss_index \<Rightarrow> vec \<Rightarrow> int \<Rightarrow> pyerr + (real \<times> int) list" where
  "index_search idx q k =
     (if length q \<noteq> index_d idx then Inl DimensionMismatch
      else if k \<le> 0 then Inl AssertionError
      else (let nearest = take (nat k)
                            (sort_key (\<lambda>i. l2sq q (index_xb idx ! i)) [0..<ntotal idx])
            in Inr (map (\<lambda>i. (l2sq q (index_xb idx ! i), int i)) nearest
                    @ replicate (nat k - length nearest) (FLT_MAX, - 1))))"

text \<open>
  The store object: \<open>self.index\<close>, \<open>self.metadata\<close> and \<open>self.dimension\<close>.  The two
  persisted artifacts are seen through what reading and writing them does: \<open>index_file\<close> is
  the outcome of \<open>faiss.read_index(index_path)\<close>, \<open>metadata_file\<close> the outcome of opening the
  metadata file and \<open>json.load\<close> of it, \<open>index_write\<close> and \<open>metadata_write\<close> the error, if
  any, with which writing the artifact fails.
\<close>

record store =
  index :: "faiss_index option"
  store_metadata :: "pydict list"
  dimension :: nat

record disk =
  index_file :: "pyerr + faiss_index"
  metadata_file :: "pyerr + pydict list"
  index_write :: "pyerr option"
  metadata_write :: "pyerr option"

text \<open>\<open>except (FileNotFoundError, IOError)\<close>: \<open>IOError\<close> is \<open>OSError\<close>, with its subclasses.\<close>

definition is_OSError :: "pyerr \<Rightarrow> bool" where
  "is_OSError e = (e = OSError \<or> e = FileNotFoundError \<or> e = PermissionError)"

text \<open>\<open>save\<close>: the raised error, if any, and the disk afterwards.  The index is written
  first, then the metadata.\<close>

definition save :: "store \<Rightarrow> disk \<Rightarrow> pyerr option \<times> disk" where
  "save st dk =
     (case index st of
        None \<Rightarrow> (Some ValueError, dk)
      | Some idx \<Rightarrow>
          (case index_write dk of
             Some e \<Rightarrow> (Some e, dk)
           | None \<Rightarrow>
               (let dk1 = dk\<lparr> index_file := Inr idx \<rparr>
                in case metadata_write dk1 of
                     Some e \<Rightarrow> (Some e, dk1)
                   | None \<Rightarrow> (None, dk1\<lparr> metadata_file := Inr (store_metadata st) \<rparr>))))"

text \<open>
  \<open>load\<close>: \<open>Inr b\<close> when it returns \<open>b\<close>, \<open>Inl e\<close> when \<open>e\<close> propagates, and the store
  afterwards.  \<open>self.index\<close> is assigned as soon as the index is read, before the metadata file
  is opened.
\<close>

definition load :: "store \<Rightarrow> disk \<Rightarrow> (pyerr + bool) \<times> store" where
  "load st dk =
     (case index_file dk of
        Inl e \<Rightarrow> (if is_OSError e then Inr False else Inl e, st)
      | Inr idx \<Rightarrow>
          (let st1 = st\<lparr> index := Some idx \<rparr>
           in case metadata_file dk of
                Inl e \<Rightarrow> (if is_OSError e then Inr False else Inl e, st1)
              | Inr m \<Rightarrow> (Inr True, st1\<lparr> store_metadata := m \<rparr>)))"

text \<open>\<open>_create_empty_index\<close>: a failure of the save is logged, not raised.\<close>

definition create_empty_index :: "store \<Rightarrow> disk \<Rightarrow> store \<times> disk" where
  "create_empty_index st dk =
     (let st1 = st\<lparr> index := Some (IndexFlatL2 (dimension st)) \<rparr>
      in (st1, snd (save st1 dk)))"

text \<open>
  \<open>add_documents\<close>: the raised error, if any, with the store and the disk afterwards.  The
  metadata records are appended first, then the vectors are added to the index; an error of the
  index propagates at that point.  A failure of the final save is logged, not raised.
\<close>

definition add_documents ::
    "store \<Rightarrow> disk \<Rightarrow> document list \<Rightarrow> ndarray \<Rightarrow> pyerr option \<times> store \<times> disk" where
  "add_documents st dk documents embeddings =
     (let (st1, dk1) = (if index st = None
                        then create_empty_index (st\<lparr> dimension := arr_cols embeddings \<rparr>) dk
                        else (st, dk));
          st2 = st1\<lparr> store_metadata := store_metadata st1 @ map metadata documents \<rparr>
      in case index st2 of
           None \<Rightarrow> (Some AttributeError, st2, dk1)
         | Some idx \<Rightarrow>
             (case index_add idx embeddings of
                Inl e \<Rightarrow> (Some e, st2, dk1)
              | Inr idx' \<Rightarrow>
                  (let st3 = st2\<lparr> index := Some idx' \<rparr>
                   in (None, st3, snd (save st3 dk1)))))"

text \<open>A search result \<open>{"metadata": ..., "distance": ...}\<close>.\<close>

record hit =
  h_metadata :: pydict
  h_distance :: real

text \<open>
  The result loop of \<open>search\<close> over the pairs of \<open>distances[0][i]\<close> and \<open>indices[0][i]\<close>:
  a slot that is negative or not below \<open>len(self.metadata)\<close> is skipped.
\<close>

fun collect_results :: "pydict list \<Rightarrow> (real \<times> int) list \<Rightarrow> hit list" where
  "collect_results md [] = []"
| "collect_results md ((dst, idx) # rest) =
     (if idx < 0 \<or> int (length md) \<le> idx then collect_results md rest
      else \<lparr> h_metadata = md ! nat idx, h_distance = dst \<rparr> # collect_results md rest)"

definition TOP_K :: int where "TOP_K = 5"

text \<open>\<open>search\<close>, for one query vector (given flat or as a matrix of one row).\<close>

definition search :: "store \<Rightarrow> vec \<Rightarrow> int option \<Rightarrow> pyerr + hit list" where
  "search st q top_k =
     (let k = (case top_k of None \<Rightarrow> TOP_K | Some k \<Rightarrow> k)
      in case index st of
           None \<Rightarrow> Inr []
         | Some idx \<Rightarrow>
             (if ntotal idx = 0 then Inr []
              else (case index_search idx q k of
                      Inl e \<Rightarrow> Inl e
                    | Inr raw \<Rightarrow> Inr (collect_results (store_metadata st) raw))))"


section \<open>Retriever (engine/retriever.py)\<close>

text \<open>
  \<open>_get_content_from_metadata\<close>.  \<open>fs\<close> gives, for a path, the outcome of opening the file and
  \<open>readlines()\<close>; \<open>str_of\<close> is the built-in \<open>str\<close> on values that are not strings, used by
  the f-strings.  Everything the line-range branch raises is caught and leads to the
  placeholders; \<open>", ".join\<close> of a value that is not a sequence of strings raises \<open>TypeError\<close>.
\<close>

definition fmt :: "(pyval \<Rightarrow> string) \<Rightarrow> pyval \<Rightarrow> string" where
  "fmt str_of v = (case v of VStr s \<Rightarrow> s | _ \<Rightarrow> str_of v)"

definition read_line_range :: "(string \<Rightarrow> pyerr + string list) \<Rightarrow> pydict \<Rightarrow> pyval \<Rightarrow> string option" where
  "read_line_range fs md file_path =
     (case md ''line_range'' of
        Some (VPair start stop) \<Rightarrow>
          (case file_path of
             VStr path \<Rightarrow>
               (case fs path of
                  Inl e \<Rightarrow> None
                | Inr lines \<Rightarrow> Some (concat (py_slice lines (start - 1) stop)))
           | _ \<Rightarrow> None)
      | _ \<Rightarrow> None)"

definition join_arguments :: "pyval \<Rightarrow> pyerr + string" where
  "join_arguments v =
     (case v of
        VList xs \<Rightarrow> Inr (join '', '' xs)
      | VStr s \<Rightarrow> Inr (join '', '' (map (\<lambda>c. [c]) s))
      | _ \<Rightarrow> Inl TypeError)"

definition get_content_from_metadata ::
    "(string \<Rightarrow> pyerr + string list) \<Rightarrow> (pyval \<Rightarrow> string) \<Rightarrow> pydict \<Rightarrow> pyerr + pyval" where
  "get_content_from_metadata fs str_of md =
     (case md ''content'' of
        Some v \<Rightarrow> Inr v
      | None \<Rightarrow>
          (let file_path = dict_get md ''file_path'' (VStr ''unknown'');
               content_type = dict_get md ''type'' (VStr ''unknown'')
           in case read_line_range fs md file_path of
                Some text \<Rightarrow> Inr (VStr text)
              | None \<Rightarrow>
                  (if content_type = VStr ''class''
                   then Inr (VStr (''class '' @ fmt str_of (dict_get md ''name'' (VStr ''UnknownClass''))
                              @ '':'' @ [NL] @ ''    # Content not available - check file ''
                              @ fmt str_of file_path @ [NL] @ ''    pass''))
                   else if content_type = VStr ''function''
                   then (case join_arguments (dict_get md ''arguments'' (VList [])) of
                           Inl e \<Rightarrow> Inl e
                         | Inr args \<Rightarrow>
                             Inr (VStr (''def '' @ fmt str_of (dict_get md ''name'' (VStr ''unknown_function''))
                                @ ''('' @ args @ ''):'' @ [NL]
                                @ ''    # Content not available - check file ''
                                @ fmt str_of file_path @ [NL] @ ''    pass'')))
                   else Inr (VStr (''# Content from '' @ fmt str_of file_path
                                @ '' (unavailable in search results)'')))))"

text \<open>An enriched result
  \<open>{"content": ..., "metadata": ..., "distance": ..., "relevance_score": ...}\<close>.\<close>

record ranked =
  r_content :: pyval
  r_metadata :: pydict
  r_distance :: real
  relevance_score :: real

text \<open>
  Python floats are binary64 numbers.  A finite float is the real number it stands for, and an
  operation on floats is the exact operation followed by rounding to the nearest float, ties
  to the even significand.  \<open>binade x\<close> is the exponent of the floats around \<open>x > 0\<close>, at
  least \<open>-1022\<close> (below, the floats are subnormal); neighbouring floats there are
  \<open>2 powi (binade x - 52)\<close> apart.  Infinities and NaN are not modelled: \<open>round64\<close> is the
  rounding of a real of magnitude below \<open>2 powi 1024\<close>, and \<open>MAX_DOUBLE\<close> is the largest
  float.
\<close>

definition binade :: "real \<Rightarrow> int" where
  "binade x = max (- 1022) \<lfloor>log 2 x\<rfloor>"

definition round_half_even :: "real \<Rightarrow> int" where
  "round_half_even r =
     (let f = \<lfloor>r\<rfloor>
      in if r - of_int f < 1 / 2 then f
         else if 1 / 2 < r - of_int f then f + 1
         else if even f then f else f + 1)"

definition round64 :: "real \<Rightarrow> real" where
  "round64 x =
     (if x = 0 then 0
      else (let u = 2 powi (binade \<bar>x\<bar> - 52)
            in sgn x * of_int (round_half_even (\<bar>x\<bar> / u)) * u))"

definition MAX_DOUBLE :: real where
  "MAX_DOUBLE = (2 - 2 powi (- 52)) * 2 powi 1023"

text \<open>\<open>a + b\<close> and \<open>a / b\<close> on floats; dividing by zero raises \<open>ZeroDivisionError\<close>.\<close>

definition float_add :: "real \<Rightarrow> real \<Rightarrow> real" where
  "float_add a b = round64 (a + b)"

definition float_div :: "real \<Rightarrow> real \<Rightarrow> pyerr + real" where
  "float_div a b = (if b = 0 then Inl ZeroDivisionError else Inr (round64 (a / b)))"

text \<open>
  \<open>_enrich_results\<close>: the loop over the hits, then the sort by descending score.  The score
  is \<open>1.0 / (1.0 + distance)\<close> in float arithmetic.  \<open>list.sort(key, reverse=True)\<close> is
  stable, as is \<open>sort_key\<close> on the negated score.
\<close>

fun enrich_loop ::
    "(string \<Rightarrow> pyerr + string list) \<Rightarrow> (pyval \<Rightarrow> string) \<Rightarrow> hit list \<Rightarrow> pyerr + ranked list" where
  "enrich_loop fs str_of [] = Inr []"
| "enrich_loop fs str_of (h # hs) =
     (case get_content_from_metadata fs str_of (h_metadata h) of
        Inl e \<Rightarrow> Inl e
      | Inr c \<Rightarrow>
          (case float_div 1 (float_add 1 (h_distance h)) of
             Inl e \<Rightarrow> Inl e
           | Inr score \<Rightarrow>
               (case enrich_loop fs str_of hs of
                  Inl e \<Rightarrow> Inl e
                | Inr rs \<Rightarrow>
                    Inr (\<lparr> r_content = c, r_metadata = h_metadata h, r_distance = h_distance h,
                           relevance_score = score \<rparr> # rs))))"

definition enrich_results ::
    "(string \<Rightarrow> pyerr + string list) \<Rightarrow> (pyval \<Rightarrow> string) \<Rightarrow> hit list \<Rightarrow> pyerr + ranked list" where
  "enrich_results fs str_of hits =
     (case enrich_loop fs str_of hits of
        Inl e \<Rightarrow> Inl e
      | Inr rs \<Rightarrow> Inr (sort_key (\<lambda>r. - relevance_score r) rs))"

text \<open>\<open>retrieve\<close>; \<open>embedder\<close> is the embedding generator on the one query text.\<close>

definition retrieve ::
    "(string \<Rightarrow> vec) \<Rightarrow> (string \<Rightarrow> pyerr + string list) \<Rightarrow> (pyval \<Rightarrow> string) \<Rightarrow> store
       \<Rightarrow> string \<Rightarrow> int option \<Rightarrow> pyerr + ranked list" where
  "retrieve embedder fs str_of st query top_k =
     (case search st (embedder query) (Some (case top_k of None \<Rightarrow> TOP_K | Some k \<Rightarrow> k)) of
        Inl e \<Rightarrow> Inl e
      | Inr results \<Rightarrow> enrich_results fs str_of results)"

text \<open>The metadata for which \<open>", ".join(metadata.get("arguments", []))\<close> cannot raise.\<close>

definition arguments_joinable :: "pydict \<Rightarrow> bool" where
  "arguments_joinable md =
     (case md ''arguments'' of None \<Rightarrow> True | Some (VList xs) \<Rightarrow> True | Some (VStr s) \<Rightarrow> True
      | Some v \<Rightarrow> False)"


text \<open>The enriched result of a hit: same metadata and distance, and as score the float
  quotient of 1 by the float sum of 1 and the distance.\<close>

definition enriched :: "hit \<Rightarrow> ranked \<Rightarrow> bool" where
  "enriched h r =
     (r_metadata r = h_metadata h \<and> r_distance r = h_distance h
      \<and> relevance_score r = round64 (1 / round64 (1 + h_distance h)))"


section \<open>Segmenter (processors/ast_parser.py)\<close>

text \<open>
  The syntax tree that \<open>ast.parse\<close> returns, as far as the segmenter reads it.  Class and
  function definitions carry what the code reads off them: \<open>lineno\<close>, \<open>end_lineno\<close> (absent
  when the parser gives no end positions), \<open>name\<close>, the outcome of \<open>ast.get_docstring\<close>, and
  their child nodes field by field; \<open>arg_names\<close> are the names of \<open>node.args.args\<close>.  An
  \<open>async def\<close> is an \<open>AsyncFunctionDef\<close>, a node class of its own and no subclass of
  \<open>FunctionDef\<close>.  A \<open>Name\<close> has one child, its expression context.  Every other node is
  an \<open>Other\<close> node with its children, which covers statements such as \<open>if\<close>.  The root is
  always a \<open>Module\<close>, and no other node is one.
\<close>

datatype node =
    is_ClassDef: ClassDef (lineno: nat) (end_lineno: "nat option") (name: string)
      (docstring: "string option") (bases: "node list") (class_keywords: "node list")
      (body: "node list") (decorator_list: "node list")
  | is_FunctionDef: FunctionDef (lineno: nat) (end_lineno: "nat option") (name: string)
      (docstring: "string option") (arg_names: "string list") (args: node)
      (body: "node list") (decorator_list: "node list") (returns: "node list")
  | is_AsyncFunctionDef: AsyncFunctionDef (lineno: nat) (end_lineno: "nat option")
      (name: string) (children: "node list")
  | is_Name: Name (end_lineno: "nat option") (ident: string) (ctx: node)
  | Other (end_lineno: "nat option") (children: "node list")

datatype module = Module (module_body: "node list")

text \<open>\<open>ast.iter_child_nodes\<close>: the child nodes in the order of the node's fields.\<close>

fun iter_child_nodes :: "node \<Rightarrow> node list" where
  "iter_child_nodes (ClassDef l e n d bs ks b ds) = bs @ ks @ b @ ds"
| "iter_child_nodes (FunctionDef l e n d ps a b ds rs) = a # b @ ds @ rs"
| "iter_child_nodes (AsyncFunctionDef l e n cs) = cs"
| "iter_child_nodes (Name e i c) = [c]"
| "iter_child_nodes (Other e cs) = cs"

text \<open>
  \<open>ast.walk\<close>: breadth first, from a queue; \<open>todo.popleft()\<close>, then
  \<open>todo.extend(iter_child_nodes(node))\<close>, then the node is yielded.
\<close>

function walk_queue :: "node list \<Rightarrow> node list" where
  "walk_queue [] = []"
| "walk_queue (n # todo) = n # walk_queue (todo @ iter_child_nodes n)"
  by pat_completeness auto
termination
proof (relation "measure (size_list size)")
  show "wf (measure (size_list size))" by simp
next
  fix n :: node and todo :: "node list"
  have "size_list size (iter_child_nodes n) \<le> size n"
    by (cases n) simp_all
  then show "(todo @ iter_child_nodes n, n # todo) \<in> measure (size_list size)"
    by simp
qed

definition walk :: "node \<Rightarrow> node list" where
  "walk n = walk_queue [n]"

text \<open>
  \<open>NodeVisitor.visit\<close> calls itself on every child, one call nested in the other down every
  path of the tree.  The first argument is the number of nested calls of \<open>visit\<close> that the
  interpreter still allows (what is left of the recursion limit where \<open>parse_file\<close> calls
  it); the result tells whether the visit returns, and it raises \<open>RecursionError\<close> otherwise.
\<close>

fun visit :: "nat \<Rightarrow> node \<Rightarrow> bool" where
  "visit 0 n = False"
| "visit (Suc k) n = list_all (visit k) (iter_child_nodes n)"

definition visit_module :: "nat \<Rightarrow> module \<Rightarrow> bool" where
  "visit_module limit tree =
     (case limit of 0 \<Rightarrow> False | Suc k \<Rightarrow> list_all (visit k) (module_body tree))"

text \<open>
  The walk of \<open>parse_file\<close> over the tree annotated by \<open>NodeVisitor\<close>: every node comes with
  the answer to \<open>isinstance(node.parent, ast.Module)\<close>, true for the nodes of the module's
  body and for no other node.  The \<open>Module\<close> root, which the walk yields first, is neither a
  class nor a function definition.
\<close>

function walk_annotated :: "(bool \<times> node) list \<Rightarrow> (bool \<times> node) list" where
  "walk_annotated [] = []"
| "walk_annotated ((toplevel, n) # todo) =
     (toplevel, n) # walk_annotated (todo @ map (Pair False) (iter_child_nodes n))"
  by pat_completeness auto
termination
proof (relation "measure (\<lambda>q. size_list size (map snd q))")
  show "wf (measure (\<lambda>q. size_list size (map snd q)))" by simp
next
  fix toplevel :: bool and n :: node and todo :: "(bool \<times> node) list"
  have "size_list size (iter_child_nodes n) \<le> size n"
    by (cases n) simp_all
  then show "(todo @ map (Pair False) (iter_child_nodes n), (toplevel, n) # todo)
               \<in> measure (\<lambda>q. size_list size (map snd q))"
    by (simp add: comp_def)
qed

text \<open>\<open>max\<close> of a sequence raises \<open>ValueError\<close> on the empty one.\<close>

definition py_max :: "nat list \<Rightarrow> pyerr + nat" where
  "py_max xs = (case xs of [] \<Rightarrow> Inl ValueError | x # rest \<Rightarrow> Inr (fold max rest x))"

text \<open>
  \<open>end_line\<close> of \<open>_process_class\<close> and \<open>_process_function\<close>: the largest \<open>end_lineno\<close> among
  the nodes of \<open>ast.walk(node)\<close> that have one, or \<open>start_line\<close> when the node itself has none.
\<close>

definition end_line :: "node \<Rightarrow> nat \<Rightarrow> pyerr + nat" where
  "end_line node start_line =
     (case end_lineno node of
        None \<Rightarrow> Inr start_line
      | Some e \<Rightarrow> py_max (List.map_filter end_lineno (walk node)))"

definition source_lines :: "string \<Rightarrow> nat \<Rightarrow> nat \<Rightarrow> string" where
  "source_lines src start_line stop_line =
     join [NL] (py_slice (split_char NL src) (int start_line - 1) (int stop_line))"

definition process_class :: "node \<Rightarrow> string \<Rightarrow> string \<Rightarrow> pyerr + document" where
  "process_class node file_path src =
     (case node of
        ClassDef l e n d bs ks b ds \<Rightarrow>
          (case end_line node l of
             Inl err \<Rightarrow> Inl err
           | Inr stop_line \<Rightarrow>
               Inr \<lparr> content = source_lines src l stop_line,
                     metadata = [''file_path'' \<mapsto> VStr file_path,
                                 ''type'' \<mapsto> VStr ''class'',
                                 ''name'' \<mapsto> VStr n,
                                 ''docstring'' \<mapsto> VStr (case d of None \<Rightarrow> [] | Some s \<Rightarrow> s),
                                 ''methods'' \<mapsto> VList (map name (filter is_FunctionDef b)),
                                 ''bases'' \<mapsto> VList (map ident (filter is_Name bs)),
                                 ''line_range'' \<mapsto> VPair (int l) (int stop_line)] \<rparr>)
      | _ \<Rightarrow> Inl AttributeError)"

definition process_function :: "node \<Rightarrow> string \<Rightarrow> string \<Rightarrow> pyerr + document" where
  "process_function node file_path src =
     (case node of
        FunctionDef l e n d ps a b ds rs \<Rightarrow>
          (case end_line node l of
             Inl err \<Rightarrow> Inl err
           | Inr stop_line \<Rightarrow>
               Inr \<lparr> content = source_lines src l stop_line,
                     metadata = [''file_path'' \<mapsto> VStr file_path,
                                 ''type'' \<mapsto> VStr ''function'',
                                 ''name'' \<mapsto> VStr n,
                                 ''docstring'' \<mapsto> VStr (case d of None \<Rightarrow> [] | Some s \<Rightarrow> s),
                                 ''arguments'' \<mapsto> VList ps,
                                 ''line_range'' \<mapsto> VPair (int l) (int stop_line)] \<rparr>)
      | _ \<Rightarrow> Inl AttributeError)"

text \<open>\<open>documents.append(x)\<close> where computing \<open>x\<close> may raise.\<close>

definition append_doc :: "pyerr + document \<Rightarrow> pyerr + document list \<Rightarrow> pyerr + document list" where
  "append_doc r rest =
     (case r of
        Inl e \<Rightarrow> Inl e
      | Inr doc \<Rightarrow> (case rest of Inl e \<Rightarrow> Inl e | Inr docs \<Rightarrow> Inr (doc # docs)))"

text \<open>The loop of \<open>parse_file\<close> over the walked nodes.\<close>

fun visit_nodes :: "string \<Rightarrow> string \<Rightarrow> (bool \<times> node) list \<Rightarrow> pyerr + document list" where
  "visit_nodes file_path src [] = Inr []"
| "visit_nodes file_path src ((toplevel, node) # rest) =
     (if is_ClassDef node
      then append_doc (process_class node file_path src) (visit_nodes file_path src rest)
      else if is_FunctionDef node \<and> toplevel
      then append_doc (process_function node file_path src) (visit_nodes file_path src rest)
      else visit_nodes file_path src rest)"

text \<open>
  \<open>parse_file\<close>, from the text read from the file.  \<open>ast_parse\<close> is \<open>ast.parse\<close>; only a
  \<open>SyntaxError\<close> is caught, so an error of another kind and the \<open>RecursionError\<close> of the
  visit propagate.  \<open>limit\<close> is the number of nested calls of \<open>visit\<close> allowed.
\<close>

definition parse_file ::
    "(string \<Rightarrow> pyerr + module) \<Rightarrow> nat \<Rightarrow> string \<Rightarrow> string \<Rightarrow> pyerr + document list" where
  "parse_file ast_parse limit file_path src =
     (case ast_parse src of
        Inl e \<Rightarrow>
          (if e = SyntaxError
           then Inr [\<lparr> content = src,
                       metadata = [''file_path'' \<mapsto> VStr file_path,
                                   ''type'' \<mapsto> VStr ''raw_text''] \<rparr>]
           else Inl e)
      | Inr tree \<Rightarrow>
          (if visit_module limit tree
           then visit_nodes file_path src (walk_annotated (map (Pair True) (module_body tree)))
           else Inl RecursionError))"

text \<open>
  The nodes of a tree at any depth, by recursion on the tree, and the unit that belongs to a
  class or function definition.
\<close>

function subnodes :: "node \<Rightarrow> node list" where
  "subnodes n = n # concat (map subnodes (iter_child_nodes n))"
  by pat_completeness auto
termination
proof (relation "measure size")
  show "wf (measure size)" by simp
next
  fix n x :: node
  assume x: "x \<in> set (iter_child_nodes n)"
  have le: "y \<in> set xs \<Longrightarrow> size y < Suc (size_list size xs)" for y :: node and xs
    by (induction xs) auto
  have "size x < size n"
  proof (cases n)
    case (ClassDef l e nm d bs ks b ds)
    then show ?thesis using x le [of x bs] le [of x ks] le [of x b] le [of x ds] by auto
  next
    case (FunctionDef l e nm d ps a b ds rs)
    then show ?thesis using x le [of x b] le [of x ds] le [of x rs] by auto
  next
    case (AsyncFunctionDef l e nm cs)
    then show ?thesis using x le [of x cs] by auto
  next
    case (Name e i c)
    then show ?thesis using x by simp
  next
    case (Other e cs)
    then show ?thesis using x le [of x cs] by auto
  qed
  then show "(x, n) \<in> measure size" by simp
qed

declare subnodes.simps [simp del]

definition unit_of :: "string \<Rightarrow> string \<Rightarrow> node \<Rightarrow> document \<Rightarrow> bool" where
  "unit_of file_path src n doc =
     (if is_ClassDef n then process_class n file_path src = Inr doc
      else is_FunctionDef n \<and> process_function n file_path src = Inr doc)"
text \<open>The nodes for which \<open>parse_file\<close> appends a unit.\<close>

definition emits :: "bool \<times> node \<Rightarrow> bool" where
  "emits x = (is_ClassDef (snd x) \<or> (is_FunctionDef (snd x) \<and> fst x))"

text \<open>
  The tree of a sum \<open>1 + 1 + ... + 1\<close> of \<open>n\<close> additions on line 1: a binary operation whose
  left operand is the sum of the additions before it, then the operator, then the constant.
\<close>

primrec left_sum :: "nat \<Rightarrow> node" where
  "left_sum 0 = Other (Some 1) []"
| "left_sum (Suc n) = Other (Some 1) [left_sum n, Other None [], Other (Some 1) []]"


section \<open>Fixed-size slicing\<close>

lemma concat_slices_take:
  "concat (map (\<lambda>j. take c (drop (j * c) xs)) [0..<n]) = take (n * c) xs"
proof (induction n)
  case 0
  show ?case by simp
next
  case (Suc n)
  have "take (n * c) xs @ take c (drop (n * c) xs) = take (n * c + c) xs"
    by (simp add: take_add)
  with Suc show ?case by (simp add: add.commute)
qed

lemma py_slice_nonneg:
  "py_slice xs (int a) (int a + int c) = take c (drop a xs)"
proof -
  have lo: "slice_index (length xs) (int a) = min (length xs) a"
    by (simp add: slice_index_def)
  have hi: "slice_index (length xs) (int a + int c) = min (length xs) (a + c)"
    by (simp add: slice_index_def nat_add_distrib)
  show ?thesis
  proof (cases "a \<le> length xs")
    case True
    then show ?thesis
      unfolding py_slice_def Let_def lo hi
      by (cases "a + c \<le> length xs") (simp_all add: min_def)
  next
    case False
    then show ?thesis
      unfolding py_slice_def Let_def lo hi by (simp add: min_def)
  qed
qed

lemma range_len_pos:
  assumes "0 < c" and "c < n"
  shows "range_len 0 (int n) (int c) = (n - 1) div c + 1"
proof -
  have "(int n - 1) div int c = int ((n - 1) div c)"
    using assms by (simp add: zdiv_int of_nat_diff)
  then show ?thesis
    using assms by (simp add: range_len_def nat_add_distrib)
qed

lemma simple_chunk_by_size_slices:
  assumes "0 < c" and "c < length src"
  shows "simple_chunk_by_size (int c) src =
           Inr (map (\<lambda>j. take c (drop (j * c) src)) [0..<(length src - 1) div c + 1])"
proof -
  have "\<not> int (length src) \<le> int c" using assms by simp
  moreover have "int c \<noteq> 0" using assms by simp
  moreover have "\<And>j. py_slice src (int j * int c) (int j * int c + int c)
                     = take c (drop (j * c) src)"
    using py_slice_nonneg [of src _ c] by (metis of_nat_mult)
  ultimately show ?thesis
    using range_len_pos [OF assms]
    by (simp add: simple_chunk_by_size_def py_range_def)
qed

lemma slices_cover:
  assumes "0 < c"
  shows "length xs \<le> ((length xs - 1) div c + 1) * c"
proof -
  have "length xs - 1 < ((length xs - 1) div c + 1) * c"
    using assms by (metis Suc_eq_plus1 dividend_less_times_div mult.commute mult_Suc_right add.commute)
  then show ?thesis by simp
qed

text \<open>
  C9.  For a positive \<open>chunk_size\<close>, fixed-size slicing of any text returns slices whose
  concatenation in index order is the text; slice \<open>i\<close> is exactly the characters from
  \<open>i * chunk_size\<close> up to \<open>(i + 1) * chunk_size\<close> (so slices do not overlap), every slice but
  the last has exactly \<open>chunk_size\<close> characters and the last has at most that many.
\<close>

theorem simple_chunk_by_size_partition:
  assumes "0 < cs"
  shows "\<exists>cks. simple_chunk_by_size cs src = Inr cks
           \<and> concat cks = src
           \<and> (\<forall>i < length cks. cks ! i = take (nat cs) (drop (i * nat cs) src))
           \<and> (\<forall>i. Suc i < length cks \<longrightarrow> length (cks ! i) = nat cs)
           \<and> (\<forall>c \<in> set cks. length c \<le> nat cs)"
proof (cases "int (length src) \<le> cs")
  case True
  then have "simple_chunk_by_size cs src = Inr [src]"
    by (simp add: simple_chunk_by_size_def)
  moreover have "length src \<le> nat cs" using True by simp
  ultimately show ?thesis by simp
next
  case False
  define c where "c = nat cs"
  define n where "n = (length src - 1) div c + 1"
  define cks where "cks = map (\<lambda>j. take c (drop (j * c) src)) [0..<n]"
  have c: "0 < c" "c < length src" "cs = int c"
    using assms False by (simp_all add: c_def)
  have res: "simple_chunk_by_size cs src = Inr cks"
    unfolding cks_def n_def c(3) by (rule simple_chunk_by_size_slices [OF c(1,2)])
  have len: "length cks = n" by (simp add: cks_def)
  have cover: "length src \<le> n * c"
    unfolding n_def by (rule slices_cover [OF c(1)])
  have cat: "concat cks = src"
    unfolding cks_def concat_slices_take using cover by simp
  have nth: "\<forall>i < length cks. cks ! i = take c (drop (i * c) src)"
    by (simp add: cks_def)
  have full: "length (cks ! i) = c" if "Suc i < length cks" for i
  proof -
    have "Suc i \<le> (length src - 1) div c" using that len by (simp add: n_def)
    then have "Suc i * c \<le> (length src - 1) div c * c" by (rule mult_le_mono1)
    also have "\<dots> \<le> length src - 1" by simp
    finally have "i * c + c \<le> length src" by simp
    moreover have "i < length cks" using that by simp
    ultimately show ?thesis using nth by simp
  qed
  have bound: "\<forall>x \<in> set cks. length x \<le> c"
    by (auto simp: cks_def)
  show ?thesis
    using res cat nth full bound by (auto simp: c_def)
qed

theorem simple_chunk_by_size_partition_witness:
  "\<exists>cks. simple_chunk_by_size 4 ''abcdefghij'' = Inr cks
     \<and> cks = [''abcd'', ''efgh'', ''ij'']
     \<and> concat cks = ''abcdefghij''"
proof -
  have pos: "(0::int) < 4" by simp
  obtain cks where r: "simple_chunk_by_size 4 ''abcdefghij'' = Inr cks"
    and cat: "concat cks = ''abcdefghij''"
    using simple_chunk_by_size_partition [OF pos, of "''abcdefghij''"] by blast
  have "simple_chunk_by_size 4 ''abcdefghij'' = Inr [''abcd'', ''efgh'', ''ij'']"
    by (simp add: simple_chunk_by_size_def py_range_def range_len_def py_slice_def
        slice_index_def upt_rec)
  with r cat show ?thesis by simp
qed


section \<open>Boundary-aware splitting of code\<close>

lemma join_append:
  "xs \<noteq> [] \<Longrightarrow> ys \<noteq> [] \<Longrightarrow> join sep (xs @ ys) = join sep xs @ sep @ join sep ys"
  by (induction sep xs rule: join.induct) (auto simp: neq_Nil_conv)

lemma join_snoc: "xs \<noteq> [] \<Longrightarrow> join sep (xs @ [y]) = join sep xs @ sep @ y"
  using join_append [of xs "[y]" sep] by simp

lemma split_char_nonempty: "split_char d s \<noteq> []"
  by (induction s) (auto split: list.splits)

lemma join_Cons: "ws \<noteq> [] \<Longrightarrow> join sep (w # ws) = w @ sep @ join sep ws"
  by (cases ws) auto

lemma join_split_char: "join [d] (split_char d s) = s"
proof (induction s)
  case Nil
  show ?case by simp
next
  case (Cons c cs)
  show ?case
  proof (cases "c = d")
    case True
    then show ?thesis using Cons split_char_nonempty [of d cs] by (simp add: join_Cons)
  next
    case False
    obtain w ws where sp: "split_char d cs = w # ws"
      using split_char_nonempty [of d cs] by (cases "split_char d cs") auto
    have "join [d] ((c # w) # ws) = c # join [d] (w # ws)"
      by (cases ws) auto
    then show ?thesis using False Cons sp by simp
  qed
qed

lemma join_map_join:
  "[] \<notin> set gs \<Longrightarrow> join sep (map (join sep) gs) = join sep (concat gs)"
proof (induction gs)
  case Nil
  show ?case by simp
next
  case (Cons g gs)
  show ?case
  proof (cases "gs = []")
    case True
    then show ?thesis by simp
  next
    case False
    then obtain h hs where gs: "gs = h # hs" by (cases gs) auto
    with Cons.prems have "g \<noteq> []" "h \<noteq> []" by auto
    with gs have ne: "g \<noteq> []" "concat gs \<noteq> []" "map (join sep) gs \<noteq> []"
      by simp_all
    from Cons have IH: "join sep (map (join sep) gs) = join sep (concat gs)" by simp
    show ?thesis
      using ne IH by (simp add: join_Cons join_append)
  qed
qed


lemma startswith_nonempty: "startswith s (p # ps) \<Longrightarrow> s \<noteq> []"
  by (auto simp: startswith_def)

lemma is_boundary_total:
  assumes "stripped \<noteq> [] \<longrightarrow> lvl \<noteq> None"
  shows "\<exists>b. is_boundary line stripped lvl = Inr b"
proof (cases "stripped = []")
  case True
  then show ?thesis by (auto simp: is_boundary_def startswith_def)
next
  case False
  with assms obtain n where "lvl = Some n" by auto
  then show ?thesis
    by (auto simp: is_boundary_def deeper_def split: bool.splits)
qed

lemma line_groups_flush:
  assumes "line_groups st seen" and "current_chunk st \<noteq> []"
  shows "line_groups (flush [NL] st) seen"
proof -
  from assms(1) obtain gs where gs: "chunks st = map (join [NL]) gs" "[] \<notin> set gs"
      "concat gs @ current_chunk st = seen"
    unfolding line_groups_def by blast
  have "chunks (flush [NL] st) = map (join [NL]) (gs @ [current_chunk st])"
    using gs(1) by (simp add: flush_def)
  moreover have "[] \<notin> set (gs @ [current_chunk st])" using gs(2) assms(2) by auto
  moreover have "concat (gs @ [current_chunk st]) @ current_chunk (flush [NL] st) = seen"
    using gs(3) by (simp add: flush_def)
  ultimately show ?thesis unfolding line_groups_def by blast
qed

lemma line_groups_push:
  assumes "line_groups st seen"
  shows "line_groups (push l n st) (seen @ [l])"
  using assms unfolding line_groups_def by (auto simp: push_def)

lemma line_groups_indent:
  "line_groups (st\<lparr>indent_level := v\<rparr>) seen = line_groups st seen"
  by (simp add: line_groups_def)

lemma code_step_groups:
  assumes "line_groups st seen"
  shows "\<exists>st'. code_step cs st l = Inr st' \<and> line_groups st' (seen @ [l])"
proof -
  define stripped where "stripped = lstrip l"
  define st1 where "st1 = (if stripped \<noteq> [] \<and> indent_level st = None
                 then st\<lparr> indent_level := Some (length l - length stripped) \<rparr> else st)"
  have "stripped \<noteq> [] \<longrightarrow> indent_level st1 \<noteq> None" by (simp add: st1_def)
  then obtain b where b: "is_boundary l stripped (indent_level st1) = Inr b"
    using is_boundary_total by blast
  define st2 where "st2 = (if b \<and> current_chunk st1 \<noteq> [] then flush [NL] st1 else st1)"
  define st3 where "st3 = (if 3 * cs < 2 * (current_size st2 + int (length (l @ [NL]))) \<and> current_chunk st2 \<noteq> []
                         then flush [NL] st2 else st2)"
  have g1: "line_groups st1 seen" using assms by (simp add: st1_def line_groups_indent)
  have g2: "line_groups st2 seen" using g1 by (simp add: st2_def line_groups_flush)
  have g3: "line_groups st3 seen" using g2 by (simp add: st3_def line_groups_flush)
  have "code_step cs st l = Inr (push l (int (length (l @ [NL]))) st3)"
    unfolding code_step_def Let_def
    unfolding stripped_def [symmetric]
    unfolding st1_def [symmetric]
    unfolding st3_def st2_def
    by (simp only: b sum.case)
  then show ?thesis using line_groups_push [OF g3] by blast
qed

lemma code_loop_groups:
  "line_groups st seen \<Longrightarrow> \<exists>st'. code_loop cs st ls = Inr st' \<and> line_groups st' (seen @ ls)"
proof (induction ls arbitrary: st seen)
  case Nil
  then show ?case by simp
next
  case (Cons l ls)
  from code_step_groups [OF Cons.prems] obtain st1 where
    s: "code_step cs st l = Inr st1" and g: "line_groups st1 (seen @ [l])" by blast
  from Cons.IH [OF g] show ?case using s by simp
qed


lemma line_groups_init: "line_groups code_init []"
  unfolding line_groups_def code_init_def by (rule exI [of _ "[]"]) simp

text \<open>
  C10.  For every text, every \<open>chunk_size\<close> and every metadata, \<open>_chunk_code\<close> returns
  (without raising) a non-empty list of chunks, each the newline-join of a non-empty group of
  consecutive lines; the groups, in order, concatenate to the lines of the text, so no line is
  omitted or duplicated, and joining the chunks with single newlines gives back the text.
\<close>

theorem chunk_code_partition:
  "\<exists>gs. chunk_code cs src md = Inr (map (join [NL]) gs) \<and> gs \<noteq> [] \<and> [] \<notin> set gs
        \<and> concat gs = split_char NL src \<and> join [NL] (map (join [NL]) gs) = src"
proof -
  define ls where "ls = split_char NL src"
  have ls: "ls \<noteq> []" "join [NL] ls = src"
    by (simp_all add: ls_def split_char_nonempty join_split_char)
  have whole: "chunk_code cs src md = Inr [src] \<Longrightarrow> ?thesis"
  proof -
    assume r: "chunk_code cs src md = Inr [src]"
    have "map (join [NL]) [ls] = [src]" using ls by simp
    moreover have "[] \<notin> set [ls]" using ls by simp
    moreover have "concat [ls] = split_char NL src" by (simp add: ls_def)
    moreover have "join [NL] (map (join [NL]) [ls]) = src" using ls by simp
    ultimately show ?thesis using r by (intro exI [of _ "[ls]"]) simp
  qed
  show ?thesis
  proof (cases "int (length src) \<le> cs \<or>
      (dict_get md ''type'' (VStr []) = VStr ''function'' \<and> int (length src) \<le> cs * 2)")
    case True
    then have "chunk_code cs src md = Inr [src]" by (auto simp: chunk_code_def)
    then show ?thesis by (rule whole)
  next
    case False
    from code_loop_groups [OF line_groups_init, of cs ls] obtain st where
      loop: "code_loop cs code_init ls = Inr st" and "line_groups st ls" by auto
    then obtain gs0 where gs0: "chunks st = map (join [NL]) gs0" "[] \<notin> set gs0"
        "concat gs0 @ current_chunk st = ls"
      unfolding line_groups_def by blast
    define gs where "gs = (if current_chunk st \<noteq> [] then gs0 @ [current_chunk st] else gs0)"
    define st' where "st' = (if current_chunk st \<noteq> []
        then st\<lparr> chunks := chunks st @ [join [NL] (current_chunk st)] \<rparr> else st)"
    have fin: "chunks st' = map (join [NL]) gs" using gs0(1) by (simp add: st'_def gs_def)
    have nonempty: "[] \<notin> set gs" using gs0(2) by (simp add: gs_def)
    have cat: "concat gs = ls" using gs0(3) by (auto simp: gs_def)
    have ne: "gs \<noteq> []" using cat ls(1) by auto
    have a: "(int (length src) \<le> cs) = False"
      and b: "(dict_get md ''type'' (VStr []) = VStr ''function'' \<and> int (length src) \<le> cs * 2) = False"
      using False by auto
    have "chunk_code cs src md = (if chunks st' = [] then simple_chunk_by_size cs src else Inr (chunks st'))"
      unfolding chunk_code_def Let_def st'_def ls_def [symmetric]
      by (simp only: a b if_False loop sum.case)
    then have res: "chunk_code cs src md = Inr (map (join [NL]) gs)"
      using fin ne by simp
    have "join [NL] (map (join [NL]) gs) = src"
      using join_map_join [OF nonempty] cat ls(2) by simp
    then show ?thesis using res ne nonempty cat unfolding ls_def by blast
  qed
qed

theorem chunk_code_partition_witness:
  "\<exists>gs. chunk_code 30 ''class A:\<newline>    x = 1\<newline>    @property\<newline>    def y(self):\<newline>        return 1''
            [''type'' \<mapsto> VStr ''class''] = Inr (map (join [NL]) gs)
        \<and> gs = [[''class A:'', ''    x = 1'', ''    @property''], [''    def y(self):'', ''        return 1'']]"
proof -
  let ?src = "''class A:\<newline>    x = 1\<newline>    @property\<newline>    def y(self):\<newline>        return 1''"
  let ?md = "[''type'' \<mapsto> VStr ''class'']"
  obtain gs where r: "chunk_code 30 ?src ?md = Inr (map (join [NL]) gs)"
    using chunk_code_partition [of 30 ?src ?md] by blast
  have "chunk_code 30 ?src ?md = Inr (map (join [NL])
      [[''class A:'', ''    x = 1'', ''    @property''], [''    def y(self):'', ''        return 1'']])"
    by code_simp
  with r show ?thesis by blast
qed

text \<open>
  C2.  The boundary test looks for \<open>@\<close> in the first column of the unstripped line, so the
  indented decorator of a method forces no boundary, and the size test can then cut between the
  decorator and its \<open>def\<close>.  With \<open>chunk_size = 30\<close> the class below is split so that
  \<open>@property\<close> is the last line of the first chunk and \<open>def y(self):\<close> the first line of
  the second one.
\<close>

theorem decorator_split_from_def:
  "chunk_code 30 ''class A:\<newline>    x = 1\<newline>    @property\<newline>    def y(self):\<newline>        return 1''
      [''type'' \<mapsto> VStr ''class'']
   = Inr [''class A:\<newline>    x = 1\<newline>    @property'', ''    def y(self):\<newline>        return 1'']"
  by code_simp


section \<open>Units that fit in one chunk\<close>

lemma chunk_document_single:
  assumes "metadata doc ''type'' = Some t"
    and "chunk_code cs (content doc) (metadata doc) = Inr [content doc]"
    and "t \<noteq> VStr ''class'' \<and> t \<noteq> VStr ''function'' \<longrightarrow> chunk_text cs (content doc) = Inr [content doc]"
  shows "chunk_document cs doc = Inr [\<lparr> content = content doc, metadata = stamp (metadata doc) 0 1 \<rparr>]"
  using assms by (auto simp: chunk_document_def enumerate_eq_zip)

text \<open>
  C6.  A unit that carries a type and whose text is no longer than \<open>chunk_size\<close>, or a
  function unit whose text is no longer than twice \<open>chunk_size\<close>, is chunked into exactly
  one chunk: its text unchanged, its metadata copied and stamped with \<open>chunk_index = 0\<close>
  and \<open>total_chunks = 1\<close>.
\<close>

theorem chunk_documents_single:
  assumes "metadata doc ''type'' = Some t"
    and "int (length (content doc)) \<le> cs
         \<or> (t = VStr ''function'' \<and> int (length (content doc)) \<le> 2 * cs)"
  shows "chunk_documents cs [doc] =
           Inr [\<lparr> content = content doc,
                  metadata = (metadata doc)(''chunk_index'' \<mapsto> VInt 0, ''total_chunks'' \<mapsto> VInt 1) \<rparr>]"
proof -
  have code: "chunk_code cs (content doc) (metadata doc) = Inr [content doc]"
    using assms by (auto simp: chunk_code_def dict_get_def)
  have plain: "chunk_text cs (content doc) = Inr [content doc]"
    if "t \<noteq> VStr ''class'' \<and> t \<noteq> VStr ''function''"
    using assms(2) that by (auto simp: chunk_text_def)
  have "chunk_document cs doc = Inr [\<lparr> content = content doc, metadata = stamp (metadata doc) 0 1 \<rparr>]"
    using chunk_document_single [OF assms(1) code] plain by blast
  then show ?thesis by (simp add: stamp_def)
qed

theorem chunk_documents_single_witness:
  "chunk_documents 20 [\<lparr> content = ''def f(a, b): return a + b'',
                          metadata = [''type'' \<mapsto> VStr ''function'', ''name'' \<mapsto> VStr ''f''] \<rparr>]
   = Inr [\<lparr> content = ''def f(a, b): return a + b'',
            metadata = [''type'' \<mapsto> VStr ''function'', ''name'' \<mapsto> VStr ''f'',
                        ''chunk_index'' \<mapsto> VInt 0, ''total_chunks'' \<mapsto> VInt 1] \<rparr>]"
proof -
  let ?doc = "\<lparr> content = ''def f(a, b): return a + b'',
                 metadata = [''type'' \<mapsto> VStr ''function'', ''name'' \<mapsto> VStr ''f''] \<rparr>"
  have t: "metadata ?doc ''type'' = Some (VStr ''function'')" by simp
  have sz: "int (length (content ?doc)) \<le> 20
         \<or> (VStr ''function'' = VStr ''function'' \<and> int (length (content ?doc)) \<le> 2 * 20)" by simp
  show ?thesis using chunk_documents_single [OF t sz] by simp
qed


section \<open>Rounding to binary64\<close>

lemma round_half_even_int: "round_half_even (of_int n) = n"
  by (simp add: round_half_even_def)

lemma round_half_even_bounds:
  "\<lfloor>r\<rfloor> \<le> round_half_even r" "round_half_even r \<le> \<lfloor>r\<rfloor> + 1"
  by (simp_all add: round_half_even_def Let_def)

lemma round_half_even_mono:
  assumes "r \<le> s"
  shows "round_half_even r \<le> round_half_even s"
proof (cases "\<lfloor>r\<rfloor> = \<lfloor>s\<rfloor>")
  case True
  then show ?thesis using assms by (auto simp: round_half_even_def Let_def)
next
  case False
  then have "\<lfloor>r\<rfloor> + 1 \<le> \<lfloor>s\<rfloor>" using floor_mono [OF assms] by simp
  then show ?thesis
    using round_half_even_bounds(2) [of r] round_half_even_bounds(1) [of s] by linarith
qed

lemma round_half_even_near:
  assumes "\<bar>r - of_int n\<bar> < 1 / 2"
  shows "round_half_even r = n"
proof (cases "of_int n \<le> r")
  case True
  then have "\<lfloor>r\<rfloor> = n" using assms by (intro floor_unique) auto
  then show ?thesis using assms True by (simp add: round_half_even_def)
next
  case False
  then have f: "\<lfloor>r\<rfloor> = n - 1" using assms by (intro floor_unique) auto
  have "1 / 2 < r - of_int (n - 1)" using assms False by simp
  then show ?thesis unfolding round_half_even_def Let_def f by simp
qed

lemma pow2_split: "(2 :: real) powi (a + b) = 2 powi a * 2 powi b"
  by (rule power_int_add) simp

lemma floor_log2_iff:
  assumes "0 < x"
  shows "(\<lfloor>log 2 x\<rfloor> = k) = (2 powi k \<le> x \<and> x < 2 powi (k + 1))"
proof -
  have a: "(2 :: real) powr real_of_int k = 2 powi k"
    by (rule powr_real_of_int') simp_all
  have b: "(2 :: real) powr real_of_int (k + 1) = 2 powi (k + 1)"
    by (rule powr_real_of_int') simp_all
  have "(\<lfloor>log 2 x\<rfloor> = k) = (2 powr real_of_int k \<le> x \<and> x < 2 powr real_of_int (k + 1))"
    using assms by (intro floor_log_eq_powr_iff) simp_all
  then show ?thesis by (simp only: a b)
qed

lemma binade_upper:
  assumes "0 < x"
  shows "x < 2 powi (binade x + 1)"
proof -
  define k where "k = \<lfloor>log 2 x\<rfloor>"
  have "x < 2 powi (k + 1)"
    using floor_log2_iff [OF assms, of k] by (simp add: k_def)
  also have "\<dots> \<le> 2 powi (binade x + 1)"
    by (intro power_int_increasing) (simp_all add: binade_def k_def)
  finally show ?thesis .
qed

lemma binade_lower:
  assumes "0 < x" and "- 1022 < binade x"
  shows "2 powi (binade x) \<le> x"
proof -
  define k where "k = \<lfloor>log 2 x\<rfloor>"
  have "binade x = k" using assms(2) by (simp add: binade_def k_def max_def split: if_splits)
  moreover have "2 powi k \<le> x"
    using floor_log2_iff [OF assms(1), of k] by (simp add: k_def)
  ultimately show ?thesis by simp
qed

lemma binade_mono:
  assumes "0 < x" and "x \<le> y"
  shows "binade x \<le> binade y"
proof -
  have "log 2 x \<le> log 2 y" using assms by (intro log_mono) auto
  then have "\<lfloor>log 2 x\<rfloor> \<le> \<lfloor>log 2 y\<rfloor>" by (rule floor_mono)
  then show ?thesis by (simp add: binade_def)
qed

lemma binade_eq:
  assumes "- 1022 \<le> e" and "2 powi e \<le> x" and "x < 2 powi (e + 1)"
  shows "binade x = e"
proof -
  have pos: "0 < x" using assms(2) zero_less_power_int [of "2 :: real" e] by linarith
  have "\<lfloor>log 2 x\<rfloor> = e"
    using floor_log2_iff [OF pos, of e] assms(2,3) by simp
  then show ?thesis using assms(1) by (simp add: binade_def)
qed

lemma round64_pos_eq:
  assumes "0 < x"
  shows "round64 x = of_int (round_half_even (x / 2 powi (binade x - 52))) * 2 powi (binade x - 52)"
  using assms by (simp add: round64_def Let_def)

lemma round64_in_binade:
  assumes "- 1022 \<le> e" and "2 powi e \<le> x" and "x < 2 powi (e + 1)"
    and "\<bar>x / 2 powi (e - 52) - of_int n\<bar> < 1 / 2"
  shows "round64 x = of_int n * 2 powi (e - 52)"
proof -
  have pos: "0 < x" using assms(2) zero_less_power_int [of "2 :: real" e] by linarith
  show ?thesis
    using round64_pos_eq [OF pos] binade_eq [OF assms(1-3)] round_half_even_near [OF assms(4)]
    by simp
qed

lemma round64_pow2:
  assumes "- 1022 \<le> e"
  shows "round64 (2 powi e) = 2 powi e"
proof -
  have "2 powi e / 2 powi (e - 52) = (2 :: real) powi 52"
    by (simp add: power_int_diff)
  then have near: "\<bar>2 powi e / 2 powi (e - 52) - of_int (2 ^ 52)\<bar> < (1 :: real) / 2"
    by simp
  have "(2 :: real) powi e < 2 powi (e + 1)"
    by (intro power_int_strict_increasing) simp_all
  from round64_in_binade [OF assms _ this near]
  have "round64 (2 powi e) = of_int (2 ^ 52) * 2 powi (e - 52)" by simp
  also have "\<dots> = 2 powi e" using pow2_split [of 52 "e - 52"] by simp
  finally show ?thesis .
qed

lemma round64_mono:
  assumes "0 < x" and "x \<le> y"
  shows "round64 x \<le> round64 y"
proof -
  have ypos: "0 < y" using assms by simp
  define ux where "ux = (2 :: real) powi (binade x - 52)"
  define uy where "uy = (2 :: real) powi (binade y - 52)"
  have upos: "0 < ux" "0 < uy" by (simp_all add: ux_def uy_def zero_less_power_int)
  have rx: "round64 x = of_int (round_half_even (x / ux)) * ux"
    using round64_pos_eq [OF assms(1)] by (simp add: ux_def)
  have ry: "round64 y = of_int (round_half_even (y / uy)) * uy"
    using round64_pos_eq [OF ypos] by (simp add: uy_def)
  show ?thesis
  proof (cases "binade x = binade y")
    case True
    then have "ux = uy" by (simp add: ux_def uy_def)
    moreover have "x / uy \<le> y / uy" using assms(2) upos(2) by (simp add: divide_right_mono)
    ultimately show ?thesis
      using round_half_even_mono [of "x / uy" "y / uy"] upos(2) rx ry
      by (simp add: mult_right_mono)
  next
    case False
    then have lt: "binade x < binade y" using binade_mono [OF assms] by simp
    have "x / ux < 2 powi (binade x + 1) / ux"
      using binade_upper [OF assms(1)] upos(1) by (simp add: divide_strict_right_mono)
    also have "\<dots> = 2 powi 53" by (simp add: ux_def power_int_diff [symmetric])
    finally have "x / ux \<le> of_int (2 ^ 53)" by simp
    from round_half_even_mono [OF this]
    have "round_half_even (x / ux) \<le> 2 ^ 53" by (simp only: round_half_even_int)
    then have "real_of_int (round_half_even (x / ux)) \<le> 2 powi 53"
      by (metis of_int_le_iff of_int_numeral of_int_power power_int_numeral)
    then have "round64 x \<le> 2 powi 53 * ux"
      using upos(1) rx by (simp add: mult_right_mono)
    also have "\<dots> = 2 powi (binade x + 1)"
      using pow2_split [of 53 "binade x - 52"] by (simp add: ux_def add.commute)
    also have "\<dots> \<le> 2 powi (binade y)"
      using lt by (intro power_int_increasing) simp_all
    finally have low: "round64 x \<le> 2 powi (binade y)" .
    have "- 1022 < binade y" using lt by (simp add: binade_def)
    from binade_lower [OF ypos this] have "2 powi (binade y) / uy \<le> y / uy"
      using upos(2) by (simp add: divide_right_mono)
    moreover have "2 powi (binade y) / uy = 2 powi 52"
      by (simp add: uy_def power_int_diff [symmetric])
    ultimately have "of_int (2 ^ 52) \<le> y / uy" by simp
    from round_half_even_mono [OF this]
    have "2 ^ 52 \<le> round_half_even (y / uy)" by (simp only: round_half_even_int)
    then have "2 powi 52 \<le> real_of_int (round_half_even (y / uy))"
      by (metis of_int_le_iff of_int_numeral of_int_power power_int_numeral)
    then have "2 powi 52 * uy \<le> round64 y"
      using upos(2) ry by (simp add: mult_right_mono)
    moreover have "2 powi 52 * uy = 2 powi (binade y)"
      using pow2_split [of 52 "binade y - 52"] by (simp add: uy_def)
    ultimately show ?thesis using low by linarith
  qed
qed

lemma round64_positive:
  assumes "2 powi (- 1074) \<le> x"
  shows "0 < round64 x"
proof -
  have pos: "0 < x" using assms zero_less_power_int [of "2 :: real" "- 1074"] by linarith
  define u where "u = (2 :: real) powi (binade x - 52)"
  have upos: "0 < u" by (simp add: u_def zero_less_power_int)
  have "u \<le> x"
  proof (cases "- 1022 < binade x")
    case True
    have "u \<le> 2 powi (binade x)" unfolding u_def by (intro power_int_increasing) simp_all
    with binade_lower [OF pos True] show ?thesis by linarith
  next
    case False
    moreover have "- 1022 \<le> binade x" by (simp add: binade_def)
    ultimately have "binade x = - 1022" by linarith
    then show ?thesis using assms by (simp add: u_def)
  qed
  then have "of_int 1 \<le> x / u" using upos by (simp add: le_divide_eq)
  from round_half_even_mono [OF this] have "1 \<le> round_half_even (x / u)"
    by (simp only: round_half_even_int)
  then have "0 < real_of_int (round_half_even (x / u))" by simp
  then show ?thesis
    using round64_pos_eq [OF pos] upos by (simp add: u_def)
qed


lemma round64_one: "round64 1 = 1"
  using round64_pow2 [of 0] by simp

lemma round64_three_halves: "round64 (3 / 2) = 3 / 2"
proof -
  have "round64 (3 / 2) = of_int (3 * 2 ^ 51) * 2 powi (0 - 52)"
    by (rule round64_in_binade) simp_all
  then show ?thesis by simp
qed

lemma round64_three: "round64 3 = 3"
proof -
  have "round64 3 = of_int (3 * 2 ^ 51) * 2 powi (1 - 52)"
    by (rule round64_in_binade) simp_all
  then show ?thesis by simp
qed

lemma round64_two_thirds: "round64 (2 / 3) = 6004799503160661 / 9007199254740992"
proof -
  have "round64 (2 / 3) = of_int 6004799503160661 * 2 powi (- 1 - 52)"
    by (rule round64_in_binade) simp_all
  then show ?thesis by simp
qed

lemma round64_one_third: "round64 (1 / 3) = 6004799503160661 / 18014398509481984"
proof -
  have "round64 (1 / 3) = of_int 6004799503160661 * 2 powi (- 2 - 52)"
    by (rule round64_in_binade) simp_all
  then show ?thesis by simp
qed

lemma round64_absorbs: "round64 (1152921504606846977 / 1152921504606846976) = 1"
proof -
  have "round64 (1152921504606846977 / 1152921504606846976) = of_int (2 ^ 52) * 2 powi (0 - 52)"
    by (rule round64_in_binade) simp_all
  then show ?thesis by simp
qed


section \<open>Ranking of search hits\<close>

lemma get_content_total:
  assumes "arguments_joinable md"
  shows "\<exists>c. get_content_from_metadata fs str_of md = Inr c"
proof -
  have "\<exists>a. join_arguments (dict_get md ''arguments'' (VList [])) = Inr a"
    using assms
    by (auto simp: arguments_joinable_def join_arguments_def dict_get_def
        split: option.splits pyval.splits)
  then show ?thesis
    by (auto simp: get_content_from_metadata_def Let_def split: option.splits)
qed

lemma float_sum_bounds:
  assumes "0 \<le> d" and "d \<le> MAX_DOUBLE"
  shows "1 \<le> round64 (1 + d)" and "round64 (1 + d) \<le> 2 powi 1024"
proof -
  have "round64 1 \<le> round64 (1 + d)" using assms(1) by (intro round64_mono) simp_all
  then show "1 \<le> round64 (1 + d)" by (simp add: round64_one)
  have "MAX_DOUBLE + 1 \<le> 2 powi 1024" by (simp add: MAX_DOUBLE_def)
  then have "1 + d \<le> 2 powi 1024" using assms(2) by linarith
  moreover have "0 < 1 + d" using assms(1) by simp
  ultimately have "round64 (1 + d) \<le> round64 (2 powi 1024)" by (intro round64_mono)
  then show "round64 (1 + d) \<le> 2 powi 1024" using round64_pow2 [of 1024] by simp
qed

lemma score_range:
  assumes "0 \<le> d" and "d \<le> MAX_DOUBLE"
  shows "0 < round64 (1 / round64 (1 + d))" and "round64 (1 / round64 (1 + d)) \<le> 1"
proof -
  define y where "y = round64 (1 + d)"
  have y: "1 \<le> y" "y \<le> 2 powi 1024" using float_sum_bounds [OF assms] by (simp_all add: y_def)
  have "1 / 2 powi 1024 \<le> 1 / y" using y by (intro divide_left_mono) simp_all
  moreover have "(2 :: real) powi (- 1074) \<le> 1 / 2 powi 1024" by simp
  ultimately have "2 powi (- 1074) \<le> 1 / y" by linarith
  then show "0 < round64 (1 / round64 (1 + d))" unfolding y_def [symmetric] by (rule round64_positive)
  have "0 < 1 / y" "1 / y \<le> 1" using y(1) by simp_all
  then have "round64 (1 / y) \<le> round64 1" by (intro round64_mono)
  then show "round64 (1 / round64 (1 + d)) \<le> 1" by (simp add: y_def round64_one)
qed

lemma score_antimono:
  assumes "0 \<le> d" and "d \<le> d'"
  shows "round64 (1 / round64 (1 + d')) \<le> round64 (1 / round64 (1 + d))"
proof -
  define y where "y = round64 (1 + d)"
  define y' where "y' = round64 (1 + d')"
  have "round64 1 \<le> y" unfolding y_def using assms(1) by (intro round64_mono) simp_all
  then have y: "1 \<le> y" by (simp add: round64_one)
  have "y \<le> y'" unfolding y_def y'_def using assms by (intro round64_mono) simp_all
  then have "0 < 1 / y'" "1 / y' \<le> 1 / y" using y by (simp_all add: frac_le)
  then show ?thesis unfolding y_def [symmetric] y'_def [symmetric] by (intro round64_mono)
qed

lemma enrich_loop_total:
  assumes "\<forall>h \<in> set hits. 0 \<le> h_distance h \<and> h_distance h \<le> MAX_DOUBLE
             \<and> arguments_joinable (h_metadata h)"
  shows "\<exists>rs. enrich_loop fs str_of hits = Inr rs \<and> list_all2 enriched hits rs"
  using assms
proof (induction hits)
  case Nil
  show ?case by simp
next
  case (Cons h hs)
  then obtain rs where rs: "enrich_loop fs str_of hs = Inr rs" "list_all2 enriched hs rs"
    by auto
  from Cons.prems have d: "0 \<le> h_distance h" "h_distance h \<le> MAX_DOUBLE"
    and a: "arguments_joinable (h_metadata h)"
    by auto
  from get_content_total [OF a] obtain c where
    c: "get_content_from_metadata fs str_of (h_metadata h) = Inr c" by blast
  have "round64 (1 + h_distance h) \<noteq> 0" using float_sum_bounds(1) [OF d] by simp
  then have sc: "float_div 1 (float_add 1 (h_distance h))
                   = Inr (round64 (1 / round64 (1 + h_distance h)))"
    by (simp add: float_div_def float_add_def)
  define r where "r = \<lparr> r_content = c, r_metadata = h_metadata h, r_distance = h_distance h,
                          relevance_score = round64 (1 / round64 (1 + h_distance h)) \<rparr>"
  have "enriched h r" by (simp add: enriched_def r_def)
  moreover have "enrich_loop fs str_of (h # hs) = Inr (r # rs)"
    using sc rs(1) c by (simp add: r_def)
  ultimately show ?case using rs(2) by simp
qed

lemma enriched_score:
  assumes "list_all2 enriched hits rs"
    and "\<forall>h \<in> set hits. 0 \<le> h_distance h \<and> h_distance h \<le> MAX_DOUBLE"
    and "r \<in> set rs"
  shows "relevance_score r = round64 (1 / round64 (1 + r_distance r))
         \<and> 0 \<le> r_distance r \<and> r_distance r \<le> MAX_DOUBLE"
proof -
  from assms(3) obtain i where i: "i < length rs" "r = rs ! i"
    by (auto simp: in_set_conv_nth)
  have "enriched (hits ! i) r" using list_all2_nthD2 [OF assms(1) i(1)] i(2) by simp
  moreover have "hits ! i \<in> set hits" using i(1) list_all2_lengthD [OF assms(1)] by simp
  ultimately show ?thesis using assms(2) by (auto simp: enriched_def)
qed

text \<open>
  C7 (amended).  When every hit has a distance \<open>d\<close> that is a finite float with \<open>d \<ge> 0\<close>
  (and metadata whose argument list can be joined), \<open>_enrich_results\<close> returns: every hit is
  enriched once, with the score \<open>1 / (1 + d)\<close> as float arithmetic gives it, the sum rounded
  and then the quotient rounded; every score lies in \<open>(0, 1]\<close>; a larger distance never has a
  larger score; the results are in descending order of score, and results of the same score
  keep the order of the hits.
\<close>

theorem enrich_results_ranked:
  assumes "\<forall>h \<in> set hits. 0 \<le> h_distance h \<and> h_distance h \<le> MAX_DOUBLE
             \<and> arguments_joinable (h_metadata h)"
  shows "\<exists>rs out. enrich_results fs str_of hits = Inr out
      \<and> list_all2 enriched hits rs
      \<and> mset out = mset rs
      \<and> sorted_wrt (\<lambda>a b. relevance_score b \<le> relevance_score a) out
      \<and> (\<forall>s. filter (\<lambda>r. relevance_score r = s) out = filter (\<lambda>r. relevance_score r = s) rs)
      \<and> (\<forall>r \<in> set out. relevance_score r = round64 (1 / round64 (1 + r_distance r))
             \<and> 0 < relevance_score r \<and> relevance_score r \<le> 1)
      \<and> (\<forall>r \<in> set out. \<forall>r' \<in> set out.
             r_distance r \<le> r_distance r' \<longrightarrow> relevance_score r' \<le> relevance_score r)"
proof -
  from enrich_loop_total [OF assms] obtain rs where
    rs: "enrich_loop fs str_of hits = Inr rs" "list_all2 enriched hits rs" by blast
  define out where "out = sort_key (\<lambda>r. - relevance_score r) rs"
  have res: "enrich_results fs str_of hits = Inr out"
    by (simp add: enrich_results_def rs(1) out_def)
  have ms: "mset out = mset rs" by (simp add: out_def)
  then have sets: "set out = set rs" by (metis set_mset_mset)
  have "sorted (map (\<lambda>r. - relevance_score r) out)"
    unfolding out_def by (rule sorted_sort_key)
  then have desc: "sorted_wrt (\<lambda>a b. relevance_score b \<le> relevance_score a) out"
    by (simp add: sorted_map)
  have stable: "\<forall>s. filter (\<lambda>r. relevance_score r = s) out = filter (\<lambda>r. relevance_score r = s) rs"
  proof
    fix s
    have "filter (\<lambda>r. - relevance_score r = - s) (sort_key (\<lambda>r. - relevance_score r) rs)
            = filter (\<lambda>r. - relevance_score r = - s) rs"
      by (rule sort_key_stable)
    then show "filter (\<lambda>r. relevance_score r = s) out = filter (\<lambda>r. relevance_score r = s) rs"
      by (simp add: out_def)
  qed
  have bounds: "\<forall>h \<in> set hits. 0 \<le> h_distance h \<and> h_distance h \<le> MAX_DOUBLE"
    using assms by blast
  have sc: "relevance_score r = round64 (1 / round64 (1 + r_distance r))
         \<and> 0 \<le> r_distance r \<and> r_distance r \<le> MAX_DOUBLE" if "r \<in> set out" for r
    using enriched_score [OF rs(2) bounds] that sets by blast
  have rng: "\<forall>r \<in> set out. relevance_score r = round64 (1 / round64 (1 + r_distance r))
             \<and> 0 < relevance_score r \<and> relevance_score r \<le> 1"
  proof
    fix r assume "r \<in> set out"
    from sc [OF this] score_range [of "r_distance r"]
    show "relevance_score r = round64 (1 / round64 (1 + r_distance r))
             \<and> 0 < relevance_score r \<and> relevance_score r \<le> 1"
      by simp
  qed
  have mono: "\<forall>r \<in> set out. \<forall>r' \<in> set out.
             r_distance r \<le> r_distance r' \<longrightarrow> relevance_score r' \<le> relevance_score r"
  proof (intro ballI impI)
    fix r r' assume "r \<in> set out" "r' \<in> set out" and le: "r_distance r \<le> r_distance r'"
    with sc have a: "relevance_score r = round64 (1 / round64 (1 + r_distance r))"
        "0 \<le> r_distance r"
      and b: "relevance_score r' = round64 (1 / round64 (1 + r_distance r'))" by auto
    show "relevance_score r' \<le> relevance_score r"
      unfolding a(1) b by (rule score_antimono [OF a(2) le])
  qed
  show ?thesis using res rs(2) ms desc stable rng mono by blast
qed

theorem enrich_results_ranked_witness:
  "enrich_results (\<lambda>p. Inl FileNotFoundError) (\<lambda>v. [])
      [\<lparr> h_metadata = [''content'' \<mapsto> VStr ''far''], h_distance = 2 \<rparr>,
       \<lparr> h_metadata = [''content'' \<mapsto> VStr ''near''], h_distance = 1 / 2 \<rparr>]
   = Inr [\<lparr> r_content = VStr ''near'', r_metadata = [''content'' \<mapsto> VStr ''near''],
            r_distance = 1 / 2, relevance_score = 6004799503160661 / 9007199254740992 \<rparr>,
          \<lparr> r_content = VStr ''far'', r_metadata = [''content'' \<mapsto> VStr ''far''],
            r_distance = 2, relevance_score = 6004799503160661 / 18014398509481984 \<rparr>]"
proof -
  let ?hits = "[\<lparr> h_metadata = [''content'' \<mapsto> VStr ''far''], h_distance = 2 \<rparr>,
       \<lparr> h_metadata = [''content'' \<mapsto> VStr ''near''], h_distance = 1 / 2 \<rparr>]"
  have pre: "\<forall>h \<in> set ?hits. 0 \<le> h_distance h \<and> h_distance h \<le> MAX_DOUBLE
               \<and> arguments_joinable (h_metadata h)"
    by (simp add: arguments_joinable_def MAX_DOUBLE_def)
  obtain out where r: "enrich_results (\<lambda>p. Inl FileNotFoundError) (\<lambda>v. []) ?hits = Inr out"
    using enrich_results_ranked [OF pre] by blast
  have "enrich_results (\<lambda>p. Inl FileNotFoundError) (\<lambda>v. []) ?hits
   = Inr [\<lparr> r_content = VStr ''near'', r_metadata = [''content'' \<mapsto> VStr ''near''],
            r_distance = 1 / 2, relevance_score = 6004799503160661 / 9007199254740992 \<rparr>,
          \<lparr> r_content = VStr ''far'', r_metadata = [''content'' \<mapsto> VStr ''far''],
            r_distance = 2, relevance_score = 6004799503160661 / 18014398509481984 \<rparr>]"
    by (simp add: enrich_results_def get_content_from_metadata_def float_add_def float_div_def
        round64_three round64_three_halves round64_one_third round64_two_thirds)
  with r show ?thesis by simp
qed

text \<open>
  The claim fails in float arithmetic.  The distances \<open>0\<close> and \<open>2 powi (- 60)\<close> differ, but the
  sum \<open>1 + 2 powi (- 60)\<close> rounds to \<open>1\<close>: both hits get the score \<open>1\<close> and the result keeps
  the hit at the larger distance first, as it came.  And the score at distance \<open>1 / 2\<close> is the
  float next to two thirds, not two thirds.
\<close>

theorem enrich_results_equal_scores:
  "enrich_results (\<lambda>p. Inl FileNotFoundError) (\<lambda>v. [])
      [\<lparr> h_metadata = [''content'' \<mapsto> VStr ''a''], h_distance = 1 / 1152921504606846976 \<rparr>,
       \<lparr> h_metadata = [''content'' \<mapsto> VStr ''b''], h_distance = 0 \<rparr>]
   = Inr [\<lparr> r_content = VStr ''a'', r_metadata = [''content'' \<mapsto> VStr ''a''],
            r_distance = 1 / 1152921504606846976, relevance_score = 1 \<rparr>,
          \<lparr> r_content = VStr ''b'', r_metadata = [''content'' \<mapsto> VStr ''b''],
            r_distance = 0, relevance_score = 1 \<rparr>]
   \<and> (0 :: real) < 1 / 1152921504606846976
   \<and> enrich_results (\<lambda>p. Inl FileNotFoundError) (\<lambda>v. [])
      [\<lparr> h_metadata = [''content'' \<mapsto> VStr ''c''], h_distance = 1 / 2 \<rparr>]
   = Inr [\<lparr> r_content = VStr ''c'', r_metadata = [''content'' \<mapsto> VStr ''c''],
            r_distance = 1 / 2, relevance_score = 6004799503160661 / 9007199254740992 \<rparr>]
   \<and> (6004799503160661 / 9007199254740992 :: real) \<noteq> 2 / 3"
  by (simp add: enrich_results_def get_content_from_metadata_def float_add_def float_div_def
      round64_one round64_absorbs round64_three_halves round64_two_thirds)


section \<open>Adding to and loading the vector store\<close>

lemma add_documents_mismatch:
  assumes "index st = Some idx" and "arr_cols emb \<noteq> index_d idx"
  shows "add_documents st dk docs emb =
           (Some DimensionMismatch,
            st\<lparr> store_metadata := store_metadata st @ map metadata docs \<rparr>, dk)"
  using assms by (simp add: add_documents_def index_add_def)

text \<open>
  C1.  A store whose index has dimension 3 and holds no vector and no metadata record is given
  one document with one vector of dimension 2.  The call fails with \<open>DimensionMismatch\<close> and
  the index still holds no vector, but the metadata record of the document has already been
  appended: one metadata record against zero vectors.
\<close>

theorem add_documents_mismatch_grows_metadata:
  "add_documents
      \<lparr> index = Some (IndexFlatL2 3), store_metadata = [], dimension = 3 \<rparr> dk
      [\<lparr> content = ''def f(): pass'', metadata = [''type'' \<mapsto> VStr ''function''] \<rparr>]
      \<lparr> arr_cols = 2, arr_rows = [[1, 2]] \<rparr>
   = (Some DimensionMismatch,
      \<lparr> index = Some (IndexFlatL2 3),
        store_metadata = [[''type'' \<mapsto> VStr ''function'']], dimension = 3 \<rparr>, dk)"
  by (simp add: add_documents_mismatch [where idx = "IndexFlatL2 3"] IndexFlatL2_def)

lemma load_index_unreadable:
  "index_file dk = Inl e \<Longrightarrow> load st dk = (if is_OSError e then Inr False else Inl e, st)"
  by (simp add: load_def)

lemma load_metadata_unreadable:
  "index_file dk = Inr idx \<Longrightarrow> metadata_file dk = Inl e \<Longrightarrow>
     load st dk = (if is_OSError e then Inr False else Inl e, st\<lparr> index := Some idx \<rparr>)"
  by (simp add: load_def)

lemma load_both_readable:
  "index_file dk = Inr idx \<Longrightarrow> metadata_file dk = Inr m \<Longrightarrow>
     load st dk = (Inr True, st\<lparr> index := Some idx, store_metadata := m \<rparr>)"
  by (simp add: load_def)

text \<open>
  C4 (amended).  A load in which either artifact cannot be read fails: it returns \<open>False\<close>
  when the error of the read is a \<open>FileNotFoundError\<close> or another \<open>IOError\<close>, and every
  other error propagates.  When it is the index file that cannot be read, the store is exactly
  what it was before.  When the index file is read and the metadata file cannot be, the
  metadata records and the dimension of the store are what they were before.  A load returns
  \<open>True\<close> exactly when both artifacts are read, whatever their slot counts, and then the store
  holds the index and the metadata records that were read.
\<close>

theorem load_fails_or_installs:
  "(\<forall>e. index_file dk = Inl e \<longrightarrow>
        load st dk = (if is_OSError e then Inr False else Inl e, st))
   \<and> (\<forall>idx e. index_file dk = Inr idx \<and> metadata_file dk = Inl e \<longrightarrow>
        fst (load st dk) = (if is_OSError e then Inr False else Inl e)
        \<and> store_metadata (snd (load st dk)) = store_metadata st
        \<and> dimension (snd (load st dk)) = dimension st)
   \<and> (fst (load st dk) = Inr True \<longleftrightarrow> (\<exists>idx m. index_file dk = Inr idx \<and> metadata_file dk = Inr m))
   \<and> (\<forall>idx m. index_file dk = Inr idx \<and> metadata_file dk = Inr m \<longrightarrow>
          load st dk = (Inr True, st\<lparr> index := Some idx, store_metadata := m \<rparr>))"
  by (auto simp: load_def Let_def split: sum.splits)

theorem load_fails_or_installs_witness:
  "load \<lparr> index = None, store_metadata = [], dimension = 2 \<rparr>
        \<lparr> index_file = Inr \<lparr> index_d = 2, index_xb = [[1, 2]] \<rparr>,
          metadata_file = Inr [Map.empty], index_write = None, metadata_write = None \<rparr>
     = (Inr True, \<lparr> index = Some \<lparr> index_d = 2, index_xb = [[1, 2]] \<rparr>,
                    store_metadata = [Map.empty], dimension = 2 \<rparr>)
   \<and> load \<lparr> index = Some (IndexFlatL2 2), store_metadata = [Map.empty], dimension = 2 \<rparr>
          \<lparr> index_file = Inl RuntimeError, metadata_file = Inr [], index_write = None, metadata_write = None \<rparr>
     = (Inl RuntimeError, \<lparr> index = Some (IndexFlatL2 2), store_metadata = [Map.empty], dimension = 2 \<rparr>)
   \<and> load \<lparr> index = Some (IndexFlatL2 2), store_metadata = [Map.empty], dimension = 2 \<rparr>
          \<lparr> index_file = Inl FileNotFoundError, metadata_file = Inr [], index_write = None, metadata_write = None \<rparr>
     = (Inr False, \<lparr> index = Some (IndexFlatL2 2), store_metadata = [Map.empty], dimension = 2 \<rparr>)
   \<and> fst (load \<lparr> index = Some (IndexFlatL2 2), store_metadata = [Map.empty], dimension = 2 \<rparr>
          \<lparr> index_file = Inr \<lparr> index_d = 2, index_xb = [[1, 2]] \<rparr>,
            metadata_file = Inl PermissionError, index_write = None, metadata_write = None \<rparr>)
     = Inr False
   \<and> fst (load \<lparr> index = Some (IndexFlatL2 2), store_metadata = [Map.empty], dimension = 2 \<rparr>
          \<lparr> index_file = Inr \<lparr> index_d = 2, index_xb = [[1, 2]] \<rparr>,
            metadata_file = Inl JSONDecodeError, index_write = None, metadata_write = None \<rparr>)
     = Inl JSONDecodeError
   \<and> store_metadata (snd (load \<lparr> index = Some (IndexFlatL2 2), store_metadata = [Map.empty], dimension = 2 \<rparr>
          \<lparr> index_file = Inr \<lparr> index_d = 2, index_xb = [[1, 2]] \<rparr>,
            metadata_file = Inl JSONDecodeError, index_write = None, metadata_write = None \<rparr>))
     = [Map.empty]"
proof -
  let ?st0 = "\<lparr> index = None, store_metadata = [], dimension = 2 \<rparr>"
  let ?st = "\<lparr> index = Some (IndexFlatL2 2), store_metadata = [Map.empty :: pydict], dimension = 2 \<rparr>"
  let ?idx = "\<lparr> index_d = 2, index_xb = [[1, 2 :: real]] \<rparr>"
  let ?ok = "\<lparr> index_file = Inr ?idx, metadata_file = Inr [Map.empty :: pydict],
               index_write = None, metadata_write = None \<rparr>"
  let ?rt = "\<lparr> index_file = Inl RuntimeError, metadata_file = Inr ([] :: pydict list),
               index_write = None, metadata_write = None \<rparr>"
  let ?nf = "\<lparr> index_file = Inl FileNotFoundError, metadata_file = Inr ([] :: pydict list),
               index_write = None, metadata_write = None \<rparr>"
  let ?pe = "\<lparr> index_file = Inr ?idx, metadata_file = Inl PermissionError,
               index_write = None, metadata_write = None \<rparr>"
  let ?js = "\<lparr> index_file = Inr ?idx, metadata_file = Inl JSONDecodeError,
               index_write = None, metadata_write = None \<rparr>"
  show ?thesis
    using load_fails_or_installs [of ?ok ?st0] load_fails_or_installs [of ?rt ?st]
      load_fails_or_installs [of ?nf ?st] load_fails_or_installs [of ?pe ?st]
      load_fails_or_installs [of ?js ?st]
    by (simp add: load_def is_OSError_def)
qed

text \<open>
  The claim fails at two loads into an empty store of dimension 2.  With an index file of one
  vector and a missing metadata file the load returns \<open>False\<close>, yet the index of the store has
  been replaced.  With an index file of one vector and a metadata file of no record the load
  returns \<open>True\<close>, although the slot counts 1 and 0 disagree.
\<close>

theorem load_counterexample:
  "load \<lparr> index = Some (IndexFlatL2 2), store_metadata = [], dimension = 2 \<rparr>
        \<lparr> index_file = Inr \<lparr> index_d = 2, index_xb = [[1, 2]] \<rparr>,
          metadata_file = Inl FileNotFoundError, index_write = None, metadata_write = None \<rparr>
     = (Inr False,
        \<lparr> index = Some \<lparr> index_d = 2, index_xb = [[1, 2]] \<rparr>, store_metadata = [], dimension = 2 \<rparr>)
   \<and> load \<lparr> index = Some (IndexFlatL2 2), store_metadata = [], dimension = 2 \<rparr>
        \<lparr> index_file = Inr \<lparr> index_d = 2, index_xb = [[1, 2]] \<rparr>,
          metadata_file = Inr [], index_write = None, metadata_write = None \<rparr>
     = (Inr True,
        \<lparr> index = Some \<lparr> index_d = 2, index_xb = [[1, 2]] \<rparr>, store_metadata = [], dimension = 2 \<rparr>)
   \<and> \<lparr> index = Some \<lparr> index_d = 2, index_xb = [[1, 2]] \<rparr>, store_metadata = [], dimension = 2 \<rparr>
       \<noteq> \<lparr> index = Some (IndexFlatL2 2), store_metadata = [], dimension = 2 \<rparr>
   \<and> ntotal \<lparr> index_d = 2, index_xb = [[1, 2]] \<rparr> \<noteq> length ([] :: pydict list)"
  by (simp add: load_def is_OSError_def IndexFlatL2_def ntotal_def)


section \<open>Nearest-neighbour search\<close>








section \<open>Segmentation of a source file\<close>

lemma walk_annotated_nodes: "map snd (walk_annotated q) = walk_queue (map snd q)"
  by (induction q rule: walk_annotated.induct) (simp_all add: comp_def)

lemma walk_annotated_toplevel: "filter fst (walk_annotated q) = filter fst q"
proof (induction q rule: walk_annotated.induct)
  case 1
  show ?case by simp
next
  case (2 toplevel n todo)
  have "filter fst (map (Pair False) (iter_child_nodes n)) = []"
    by (induction "iter_child_nodes n") (simp_all add: filter_empty_conv)
  with 2 show ?case by simp
qed

lemma walk_queue_mset: "mset (walk_queue q) = mset (concat (map subnodes q))"
proof (induction q rule: walk_queue.induct)
  case 1
  show ?case by simp
next
  case (2 n todo)
  have "mset (subnodes n) = {#n#} + mset (concat (map subnodes (iter_child_nodes n)))"
    by (subst subnodes.simps) simp
  with 2 show ?case by (simp add: mset_concat)
qed

lemma end_line_total:
  assumes "is_ClassDef n \<or> is_FunctionDef n"
  shows "\<exists>e. end_line n l = Inr e"
proof (cases "end_lineno n")
  case None
  then show ?thesis by (simp add: end_line_def)
next
  case (Some e)
  have "walk n = n # walk_queue (iter_child_nodes n)" by (simp add: walk_def)
  then have "List.map_filter end_lineno (walk n)
              = e # List.map_filter end_lineno (walk_queue (iter_child_nodes n))"
    using Some by (simp add: List.map_filter_simps)
  then show ?thesis using Some by (simp add: end_line_def py_max_def)
qed

lemma process_class_total:
  assumes "is_ClassDef n"
  shows "\<exists>doc. process_class n path src = Inr doc"
proof -
  from assms obtain l e nm d bs ks b ds where n: "n = ClassDef l e nm d bs ks b ds"
    by (cases n) auto
  from end_line_total [of n l] assms obtain stop_line where "end_line n l = Inr stop_line"
    by blast
  then show ?thesis by (simp add: process_class_def n)
qed

lemma process_function_total:
  assumes "is_FunctionDef n"
  shows "\<exists>doc. process_function n path src = Inr doc"
proof -
  from assms obtain l e nm d ps a b ds rs where n: "n = FunctionDef l e nm d ps a b ds rs"
    by (cases n) auto
  from end_line_total [of n l] assms obtain stop_line where "end_line n l = Inr stop_line"
    by blast
  then show ?thesis by (simp add: process_function_def n)
qed

lemma visit_nodes_units:
  "\<exists>docs. visit_nodes path src w = Inr docs
          \<and> list_all2 (unit_of path src) (map snd (filter emits w)) docs"
proof (induction w)
  case Nil
  show ?case by simp
next
  case (Cons x w)
  obtain toplevel n where x: "x = (toplevel, n)" by (cases x)
  from Cons obtain docs where docs: "visit_nodes path src w = Inr docs"
      "list_all2 (unit_of path src) (map snd (filter emits w)) docs" by blast
  show ?case
  proof (cases "is_ClassDef n")
    case True
    from process_class_total [OF True] obtain doc where
      doc: "process_class n path src = Inr doc" by blast
    have "unit_of path src n doc" using True doc by (simp add: unit_of_def)
    moreover have "emits x" using True x by (simp add: emits_def)
    ultimately show ?thesis using True doc docs x by (simp add: append_doc_def)
  next
    case False
    show ?thesis
    proof (cases "is_FunctionDef n \<and> toplevel")
      case True
      then have f: "is_FunctionDef n" by simp
      from process_function_total [OF f] obtain doc where
        doc: "process_function n path src = Inr doc" by blast
      have "unit_of path src n doc" using False f doc by (simp add: unit_of_def)
      moreover have "emits x" using True x by (simp add: emits_def)
      ultimately show ?thesis using False True doc docs x by (simp add: append_doc_def)
    next
      case nf: False
      then have "\<not> emits x" using False x by (simp add: emits_def)
      then show ?thesis using nf False docs x by auto
    qed
  qed
qed

lemma emitted_classes:
  "filter is_ClassDef (map snd (filter emits w)) = filter is_ClassDef (map snd w)"
  by (induction w) (auto simp: emits_def)

lemma emitted_functions:
  "filter is_FunctionDef (map snd (filter emits w))
     = filter is_FunctionDef (map snd (filter fst w))"
proof (induction w)
  case Nil
  show ?case by simp
next
  case (Cons x w)
  have "is_FunctionDef (snd x) \<Longrightarrow> \<not> is_ClassDef (snd x)"
    by (cases "snd x") auto
  with Cons show ?case by (auto simp: emits_def)
qed

lemma visit_numeral:
  "visit (numeral k) n = list_all (visit (pred_numeral k)) (iter_child_nodes n)"
  by (simp add: numeral_eq_Suc)

lemma visit_module_numeral:
  "visit_module (numeral k) tree = list_all (visit (pred_numeral k)) (module_body tree)"
  by (simp add: visit_module_def numeral_eq_Suc)

lemma visit_leaf: "visit k (Other e []) = (0 < k)"
  by (cases k) simp_all

lemma visit_left_sum: "visit k (left_sum n) = (n < k)"
proof (induction n arbitrary: k)
  case 0
  show ?case by (simp add: visit_leaf)
next
  case (Suc n)
  show ?case
  proof (cases k)
    case 0
    then show ?thesis by simp
  next
    case (Suc j)
    then show ?thesis using Suc.IH [of j] by (auto simp: visit_leaf)
  qed
qed

text \<open>
  C8 (amended).  When the text parses and the visit that annotates the tree stays within the
  recursion limit, \<open>parse_file\<close> returns one unit per emitted node, in order, and the emitted
  nodes are class definitions and \<open>def\<close> function definitions only: as a multiset, the emitted
  class definitions are all the class definitions among the nodes of the tree at any depth,
  and the emitted function definitions are exactly the \<open>FunctionDef\<close> nodes in the body of the
  module, in order.  A function definition nested in a class, in a function or in any other
  statement is therefore not emitted, and neither is an \<open>async def\<close>, wherever it stands.
\<close>

theorem parse_file_units:
  assumes "ast_parse src = Inr tree" and "visit_module limit tree"
  shows "\<exists>emitted docs. parse_file ast_parse limit path src = Inr docs
     \<and> list_all2 (unit_of path src) emitted docs
     \<and> (\<forall>n \<in> set emitted. is_ClassDef n \<or> is_FunctionDef n)
     \<and> mset (filter is_ClassDef emitted)
         = filter_mset is_ClassDef (mset (concat (map subnodes (module_body tree))))
     \<and> filter is_FunctionDef emitted = filter is_FunctionDef (module_body tree)"
proof -
  define w where "w = walk_annotated (map (Pair True) (module_body tree))"
  define emitted where "emitted = map snd (filter emits w)"
  from visit_nodes_units [of path src w] obtain docs where
    docs: "visit_nodes path src w = Inr docs" "list_all2 (unit_of path src) emitted docs"
    unfolding emitted_def by blast
  have res: "parse_file ast_parse limit path src = Inr docs"
    using assms docs(1) by (simp add: parse_file_def w_def)
  have kinds: "\<forall>n \<in> set emitted. is_ClassDef n \<or> is_FunctionDef n"
    by (auto simp: emitted_def emits_def)
  have nodes: "map snd w = walk_queue (module_body tree)"
    by (simp add: w_def walk_annotated_nodes comp_def)
  have "filter is_ClassDef emitted = filter is_ClassDef (walk_queue (module_body tree))"
    by (simp add: emitted_def emitted_classes nodes)
  then have classes: "mset (filter is_ClassDef emitted)
         = filter_mset is_ClassDef (mset (concat (map subnodes (module_body tree))))"
    by (simp add: walk_queue_mset)
  have "filter fst w = map (Pair True) (module_body tree)"
    by (simp add: w_def walk_annotated_toplevel filter_map comp_def)
  then have funs: "filter is_FunctionDef emitted = filter is_FunctionDef (module_body tree)"
    by (simp add: emitted_def emitted_functions comp_def)
  show ?thesis using res docs(2) kinds classes funs by blast
qed

theorem parse_file_units_witness:
  "\<exists>docs. parse_file (\<lambda>s. Inr (Module [
        FunctionDef 1 (Some 2) ''f'' None [''a'', ''b''] (Other None [])
          [FunctionDef 2 (Some 2) ''g'' None [] (Other None []) [Other (Some 2) []] [] []] [] [],
        ClassDef 3 (Some 6) ''A'' (Some ''doc'') [Name (Some 3) ''B'' (Other None [])] []
          [FunctionDef 4 (Some 5) ''m'' None [''self''] (Other None []) [Other (Some 5) []] [] [],
           ClassDef 6 (Some 6) ''Inner'' None [] [] [Other (Some 6) []] []] []]))
      1000 ''m.py''
      ''def f(a, b):\<newline>    def g(): pass\<newline>class A(B):\<newline>    def m(self):\<newline>        pass\<newline>    class Inner: pass''
      = Inr docs
    \<and> map (\<lambda>d. (metadata d ''type'', metadata d ''name'', metadata d ''line_range'')) docs
      = [(Some (VStr ''function''), Some (VStr ''f''), Some (VPair 1 2)),
         (Some (VStr ''class''), Some (VStr ''A''), Some (VPair 3 6)),
         (Some (VStr ''class''), Some (VStr ''Inner''), Some (VPair 6 6))]"
proof -
  let ?tree = "Module [
        FunctionDef 1 (Some 2) ''f'' None [''a'', ''b''] (Other None [])
          [FunctionDef 2 (Some 2) ''g'' None [] (Other None []) [Other (Some 2) []] [] []] [] [],
        ClassDef 3 (Some 6) ''A'' (Some ''doc'') [Name (Some 3) ''B'' (Other None [])] []
          [FunctionDef 4 (Some 5) ''m'' None [''self''] (Other None []) [Other (Some 5) []] [] [],
           ClassDef 6 (Some 6) ''Inner'' None [] [] [Other (Some 6) []] []] []]"
  let ?src = "''def f(a, b):\<newline>    def g(): pass\<newline>class A(B):\<newline>    def m(self):\<newline>        pass\<newline>    class Inner: pass''"
  have parsed: "(\<lambda>s. Inr ?tree :: pyerr + module) ?src = Inr ?tree" by simp
  have visited: "visit_module 1000 ?tree"
    by (simp add: visit_module_numeral visit_numeral)
  from parse_file_units [of "\<lambda>s. Inr ?tree" ?src ?tree 1000 "''m.py''", OF parsed visited]
  obtain docs where r: "parse_file (\<lambda>s. Inr ?tree) 1000 ''m.py'' ?src = Inr docs" by blast
  have m: "parse_file (\<lambda>s. Inr ?tree) 1000 ''m.py'' ?src = Inr docs \<Longrightarrow>
      map (\<lambda>d. (metadata d ''type'', metadata d ''name'', metadata d ''line_range'')) docs
      = [(Some (VStr ''function''), Some (VStr ''f''), Some (VPair 1 2)),
         (Some (VStr ''class''), Some (VStr ''A''), Some (VPair 3 6)),
         (Some (VStr ''class''), Some (VStr ''Inner''), Some (VPair 6 6))]"
    unfolding parse_file_def using visited
    by (auto simp: append_doc_def process_class_def process_function_def
        end_line_def py_max_def walk_def List.map_filter_simps)
  show ?thesis
  proof (intro exI conjI)
    show "parse_file (\<lambda>s. Inr ?tree) 1000 ''m.py'' ?src = Inr docs" by (rule r)
    show "map (\<lambda>d. (metadata d ''type'', metadata d ''name'', metadata d ''line_range'')) docs
      = [(Some (VStr ''function''), Some (VStr ''f''), Some (VPair 1 2)),
         (Some (VStr ''class''), Some (VStr ''A''), Some (VPair 3 6)),
         (Some (VStr ''class''), Some (VStr ''Inner''), Some (VPair 6 6))]"
      by (rule m [OF r])
  qed
qed

text \<open>
  The claim fails at two files that parse.  The file \<open>async def f(): pass\<close> has a function
  definition at the top level of the module and gets no unit.  The file that adds up 1001
  ones has a tree that nests 1000 additions below its statement; with 1000 nested calls
  allowed the visit raises \<open>RecursionError\<close>, which \<open>parse_file\<close> does not catch, and the
  file gets no unit either.
\<close>

theorem parse_file_async_and_deep:
  "parse_file (\<lambda>s. Inr (Module [AsyncFunctionDef 1 (Some 1) ''f''
                                   [Other None [], Other (Some 1) []]]))
      1000 ''m.py'' ''async def f(): pass'' = Inr []
   \<and> parse_file (\<lambda>s. Inr (Module [Other (Some 1) [left_sum 1000]]))
      1000 ''m.py'' (concat (replicate 1000 ''1 + '') @ ''1'') = Inl RecursionError"
proof -
  have "visit_module 1000 (Module [AsyncFunctionDef 1 (Some 1) ''f''
                                   [Other None [], Other (Some 1) []]])"
    by (simp add: visit_module_numeral visit_numeral)
  moreover have "\<not> visit_module 1000 (Module [Other (Some 1) [left_sum 1000]])"
    by (simp add: visit_module_numeral visit_numeral visit_left_sum)
  ultimately show ?thesis
    by (simp add: parse_file_def)
qed

text \<open>
  C3 (amended).  When \<open>ast.parse\<close> raises \<open>SyntaxError\<close>, \<open>parse_file\<close> returns exactly one
  unit: its text is the whole text of the file and its metadata holds the file path and the
  type \<open>raw_text\<close>, and nothing else.
\<close>

theorem parse_file_syntax_error:
  assumes "ast_parse src = Inl SyntaxError"
  shows "parse_file ast_parse limit path src =
           Inr [\<lparr> content = src,
                  metadata = [''file_path'' \<mapsto> VStr path, ''type'' \<mapsto> VStr ''raw_text''] \<rparr>]"
  using assms by (simp add: parse_file_def)

theorem parse_file_syntax_error_witness:
  "parse_file (\<lambda>s. Inl SyntaxError) 1000 ''m.py'' ''def f(:\<newline>    pass''
     = Inr [\<lparr> content = ''def f(:\<newline>    pass'',
              metadata = [''file_path'' \<mapsto> VStr ''m.py'', ''type'' \<mapsto> VStr ''raw_text''] \<rparr>]"
proof -
  have failed: "(\<lambda>s. Inl SyntaxError :: pyerr + module) ''def f(:\<newline>    pass'' = Inl SyntaxError"
    by simp
  show ?thesis
    using parse_file_syntax_error [of "\<lambda>s. Inl SyntaxError" "''def f(:\<newline>    pass''" 1000 "''m.py''", OF failed]
    by simp
qed

text \<open>
  The unit returned for a text of two lines that does not parse records no line range: its
  metadata has no \<open>line_range\<close> entry, so in particular not the range from line 1 to line 2.
\<close>

theorem parse_file_raw_text_no_line_range:
  "parse_file (\<lambda>s. Inl SyntaxError) 1000 ''m.py'' ''def f(:\<newline>    pass''
     = Inr [\<lparr> content = ''def f(:\<newline>    pass'',
              metadata = [''file_path'' \<mapsto> VStr ''m.py'', ''type'' \<mapsto> VStr ''raw_text''] \<rparr>]
   \<and> [''file_path'' \<mapsto> VStr ''m.py'', ''type'' \<mapsto> VStr ''raw_text''] ''line_range'' = None
   \<and> [''file_path'' \<mapsto> VStr ''m.py'', ''type'' \<mapsto> VStr ''raw_text''] ''line_range''
       \<noteq> Some (VPair 1 2)"
  by (simp add: parse_file_def)

end
